theory Spec2Isabelle
  imports Main "HOL-Library.Monad_Syntax"
begin

section \<open>JavaScript strings\<close>

text \<open>
  A JavaScript string is a sequence of UTF-16 code units; \<open>length\<close>, \<open>indexOf\<close>,
  \<open>substring\<close> and regular expressions without the \<open>u\<close> flag all count code units.
  A code unit is modelled as a natural number, a string as the list of its code units.
\<close>

type_synonym jsstring = "nat list"

definition ascii :: "string \<Rightarrow> jsstring" where
  "ascii s = map of_char s"

text \<open>\<open>String(n)\<close> for a non-negative integer: its decimal digits.\<close>

fun decimal :: "nat \<Rightarrow> jsstring" where
  "decimal n = (if n < 10 then [0x30 + n] else decimal (n div 10) @ [0x30 + n mod 10])"

declare decimal.simps [simp del]

text \<open>
  \<open>s.split(sep)\<close> for a separator that consumes exactly one code unit (a one-character
  string, or a character class): the pieces between the separators; the empty string
  gives one empty piece.
\<close>

fun split :: "(nat \<Rightarrow> bool) \<Rightarrow> jsstring \<Rightarrow> jsstring list" where
  "split P [] = [[]]"
| "split P (c # cs) =
     (if P c then [] # split P cs
      else (case split P cs of [] \<Rightarrow> [[c]] | seg # segs \<Rightarrow> (c # seg) # segs))"

text \<open>\<open>s.indexOf(sub)\<close>: the first position where \<open>sub\<close> occurs, or \<open>-1\<close>.\<close>

primrec indexOf_from :: "jsstring \<Rightarrow> jsstring \<Rightarrow> nat \<Rightarrow> int" where
  "indexOf_from sub [] j = (if sub = [] then int j else - 1)"
| "indexOf_from sub (c # cs) j =
     (if take (length sub) (c # cs) = sub then int j else indexOf_from sub cs (Suc j))"

definition indexOf :: "jsstring \<Rightarrow> jsstring \<Rightarrow> int" where
  "indexOf s sub = indexOf_from sub s 0"

definition includes_str :: "jsstring \<Rightarrow> jsstring \<Rightarrow> bool" where
  "includes_str s sub = (indexOf s sub \<noteq> - 1)"

text \<open>
  \<open>s.substring(a, b)\<close>: both indices are clamped to \<open>[0, length]\<close> and swapped when
  \<open>a > b\<close>; \<open>s.substring(a)\<close> runs to the end.
\<close>

definition clamp_index :: "jsstring \<Rightarrow> int \<Rightarrow> nat" where
  "clamp_index s a = nat (min (int (length s)) (max 0 a))"

definition substring :: "jsstring \<Rightarrow> int \<Rightarrow> int \<Rightarrow> jsstring" where
  "substring s a b =
     (let a' = clamp_index s a; b' = clamp_index s b
      in take (max a' b' - min a' b') (drop (min a' b') s))"

definition substring_from :: "jsstring \<Rightarrow> int \<Rightarrow> jsstring" where
  "substring_from s a = drop (clamp_index s a) s"

section \<open>Regular expressions\<close>

text \<open>
  The patterns of the program are sequences of character classes with greedy counted
  repetition, one capture group, a back-reference to it, \<open>\b\<close> and \<open>^\<close>. A pattern is
  the list of its items, the group being marked by \<open>Open\<close> and \<open>Close\<close>. The matcher
  is the backtracking one of ECMAScript: a greedy repetition takes as many characters as
  it can and gives them back one at a time while the rest of the pattern fails.
\<close>

datatype cclass = CC bool "(nat \<times> nat) list"
  \<comment> \<open>negated or not, and the ranges of code units listed between the brackets\<close>

fun in_class :: "cclass \<Rightarrow> nat \<Rightarrow> bool" where
  "in_class (CC neg rs) c = (list_ex (\<lambda>(lo, hi). lo \<le> c \<and> c \<le> hi) rs \<noteq> neg)"

datatype item =
    Rep cclass nat "nat option"  \<comment> \<open>class, least and greatest number of repetitions\<close>
  | Open | Close | BackRef | WordB | Bol

definition lit :: "jsstring \<Rightarrow> item list" where
  "lit cs = map (\<lambda>c. Rep (CC False [(c, c)]) 1 (Some 1)) cs"

text \<open>The code units of \<open>\s\<close> (white space and line terminators) and of \<open>\w\<close>.\<close>

definition ws_ranges :: "(nat \<times> nat) list" where
  "ws_ranges = [(0x09, 0x0D), (0x20, 0x20), (0xA0, 0xA0), (0x1680, 0x1680), (0x2000, 0x200A),
                (0x2028, 0x2029), (0x202F, 0x202F), (0x205F, 0x205F), (0x3000, 0x3000),
                (0xFEFF, 0xFEFF)]"

definition word_char :: "nat \<Rightarrow> bool" where
  "word_char c = in_class (CC False [(0x30, 0x39), (0x41, 0x5A), (0x5F, 0x5F), (0x61, 0x7A)]) c"

definition word_at :: "jsstring \<Rightarrow> nat \<Rightarrow> bool" where
  "word_at s i = (i < length s \<and> word_char (s ! i))"

text \<open>\<open>first_from f lo k\<close> tries \<open>f k\<close>, \<open>f (k - 1)\<close>, ... down to \<open>f lo\<close>.\<close>

primrec first_from :: "(nat \<Rightarrow> 'a option) \<Rightarrow> nat \<Rightarrow> nat \<Rightarrow> 'a option" where
  "first_from f lo 0 = (if lo = 0 then f 0 else None)"
| "first_from f lo (Suc k) =
     (if Suc k < lo then None
      else (case f (Suc k) of Some r \<Rightarrow> Some r | None \<Rightarrow> first_from f lo k))"

text \<open>
  \<open>match_items re s i opn cap\<close> matches the items at position \<open>i\<close> of \<open>s\<close>, where \<open>opn\<close>
  is the position at which the group was opened and \<open>cap\<close> what it captured; the result
  is the end of the match and the capture.
\<close>

primrec match_items ::
  "item list \<Rightarrow> jsstring \<Rightarrow> nat \<Rightarrow> nat option \<Rightarrow> jsstring option \<Rightarrow> (nat \<times> jsstring option) option" where
  "match_items [] s i opn cap = Some (i, cap)"
| "match_items (x # xs) s i opn cap =
     (case x of
        Rep cls lo hi \<Rightarrow>
          (let avail = length (takeWhile (in_class cls) (drop i s));
               kmax = (case hi of None \<Rightarrow> avail | Some h \<Rightarrow> min h avail)
           in first_from (\<lambda>k. match_items xs s (i + k) opn cap) lo kmax)
      | Open \<Rightarrow> match_items xs s i (Some i) cap
      | Close \<Rightarrow>
          (case opn of
             None \<Rightarrow> match_items xs s i opn cap
           | Some j \<Rightarrow> match_items xs s i opn (Some (take (i - j) (drop j s))))
      | BackRef \<Rightarrow>
          (case cap of
             None \<Rightarrow> match_items xs s i opn cap
           | Some c \<Rightarrow>
               if take (length c) (drop i s) = c then match_items xs s (i + length c) opn cap
               else None)
      | WordB \<Rightarrow>
          (if (0 < i \<and> word_at s (i - 1)) \<noteq> word_at s i then match_items xs s i opn cap
           else None)
      | Bol \<Rightarrow> (if i = 0 then match_items xs s i opn cap else None))"

text \<open>
  One call of \<open>re.exec(s)\<close> with \<open>lastIndex = i\<close>: the first start position from \<open>i\<close> on
  (up to the end of the string) at which the pattern matches. A match is the triple of
  its index, its end and the capture of group 1.
\<close>

type_synonym rmatch = "nat \<times> nat \<times> jsstring option"

primrec search_aux :: "item list \<Rightarrow> jsstring \<Rightarrow> nat \<Rightarrow> nat \<Rightarrow> rmatch option" where
  "search_aux re s 0 j = None"
| "search_aux re s (Suc n) j =
     (case match_items re s j None None of
        Some (e, cap) \<Rightarrow> Some (j, e, cap)
      | None \<Rightarrow> search_aux re s n (Suc j))"

definition search :: "item list \<Rightarrow> jsstring \<Rightarrow> nat \<Rightarrow> rmatch option" where
  "search re s i = search_aux re s (Suc (length s) - i) i"

lemma first_from_Some:
  "first_from f lo k = Some r \<Longrightarrow> \<exists>n. lo \<le> n \<and> n \<le> k \<and> f n = Some r"
proof (induction k)
  case 0
  then show ?case by (auto split: if_splits)
next
  case (Suc k)
  show ?case
  proof (cases "f (Suc k)")
    case None
    with Suc.prems have "first_from f lo k = Some r" by (simp split: if_splits)
    from Suc.IH[OF this] show ?thesis by (meson le_Suc_eq)
  next
    case (Some a)
    with Suc.prems have "a = r" "lo \<le> Suc k" by (auto split: if_splits)
    with Some show ?thesis by blast
  qed
qed

text \<open>The least number of characters a pattern consumes.\<close>

primrec min_width :: "item list \<Rightarrow> nat" where
  "min_width [] = 0"
| "min_width (x # xs) = (case x of Rep cls lo hi \<Rightarrow> lo | _ \<Rightarrow> 0) + min_width xs"

lemma match_items_bounds:
  "match_items re s i opn cap = Some (e, c) \<Longrightarrow> i \<le> length s
   \<Longrightarrow> i + min_width re \<le> e \<and> e \<le> length s"
proof (induction re arbitrary: i opn cap)
  case Nil
  then show ?case by simp
next
  case (Cons x xs)
  note IH = Cons.IH and m = Cons.prems(1) and le = Cons.prems(2)
  show ?case
  proof (cases x)
    case (Rep cls lo hi)
    define avail where "avail = length (takeWhile (in_class cls) (drop i s))"
    define kmax where "kmax = (case hi of None \<Rightarrow> avail | Some h \<Rightarrow> min h avail)"
    have av: "avail \<le> length s - i"
      unfolding avail_def using length_takeWhile_le[of "in_class cls" "drop i s"] by simp
    have km: "kmax \<le> avail" unfolding kmax_def by (simp split: option.splits)
    from m Rep
    have "first_from (\<lambda>k. match_items xs s (i + k) opn cap) lo kmax = Some (e, c)"
      unfolding avail_def kmax_def by (simp add: Let_def)
    from first_from_Some[OF this] obtain n where
      n: "lo \<le> n" "n \<le> kmax" "match_items xs s (i + n) opn cap = Some (e, c)" by blast
    have "i + n \<le> length s" using n(2) km av le by linarith
    from IH[OF n(3) this] n(1) Rep show ?thesis by simp
  next
    case Open
    with m have "match_items xs s i (Some i) cap = Some (e, c)" by simp
    from IH[OF this le] Open show ?thesis by simp
  next
    case Close
    with m obtain cap' where "match_items xs s i opn cap' = Some (e, c)"
      by (cases opn) auto
    from IH[OF this le] Close show ?thesis by simp
  next
    case BackRef
    show ?thesis
    proof (cases cap)
      case None
      with m BackRef have "match_items xs s i opn cap = Some (e, c)" by simp
      from IH[OF this le] BackRef show ?thesis by simp
    next
      case (Some w)
      with m BackRef have
        tk: "take (length w) (drop i s) = w" and
        mm: "match_items xs s (i + length w) opn cap = Some (e, c)"
        by (simp_all split: if_splits)
      have "length (take (length w) (drop i s)) \<le> length s - i" by simp
      with tk have "length w \<le> length s - i" by simp
      with le have "i + length w \<le> length s" by linarith
      from IH[OF mm this] BackRef show ?thesis by simp
    qed
  next
    case WordB
    with m have "match_items xs s i opn cap = Some (e, c)" by (simp split: if_splits)
    from IH[OF this le] WordB show ?thesis by simp
  next
    case Bol
    with m have "match_items xs s i opn cap = Some (e, c)" by (simp split: if_splits)
    from IH[OF this le] Bol show ?thesis by simp
  qed
qed

lemma search_aux_bounds:
  "search_aux re s n j = Some (idx, e, c) \<Longrightarrow> j + n \<le> Suc (length s)
   \<Longrightarrow> j \<le> idx \<and> idx + min_width re \<le> e \<and> e \<le> length s"
proof (induction n arbitrary: j)
  case 0
  then show ?case by simp
next
  case (Suc n)
  show ?case
  proof (cases "match_items re s j None None")
    case None
    with Suc.prems have "search_aux re s n (Suc j) = Some (idx, e, c)" by simp
    from Suc.IH[OF this] Suc.prems(2) show ?thesis by simp
  next
    case (Some a)
    with Suc.prems have a: "a = (e, c)" "idx = j" by (auto split: prod.splits)
    have "j \<le> length s" using Suc.prems(2) by simp
    from match_items_bounds[OF Some[unfolded a(1)] this] a show ?thesis by simp
  qed
qed

lemma search_bounds:
  assumes "search re s i = Some (idx, e, c)"
  shows "i \<le> idx \<and> idx + min_width re \<le> e \<and> e \<le> length s"
proof -
  from assms have "search_aux re s (Suc (length s) - i) i = Some (idx, e, c)"
    by (simp add: search_def)
  moreover from this have "i \<le> length s" by (cases "i \<le> length s") auto
  ultimately show ?thesis using search_aux_bounds[of re s "Suc (length s) - i" i idx e c] by simp
qed

text \<open>
  The loop \<open>while ((match = pattern.exec(lineText)) !== null) { ... }\<close> over a global
  pattern: \<open>exec\<close> searches from \<open>lastIndex\<close> and moves it to the end of the match.
  When a match ends where the search began, \<open>lastIndex\<close> does not move and the loop
  never ends: the result is then \<open>None\<close>.
\<close>

function exec_all :: "item list \<Rightarrow> jsstring \<Rightarrow> nat \<Rightarrow> rmatch list option" where
  "exec_all re s i =
     (case search re s i of
        None \<Rightarrow> Some []
      | Some (idx, e, cap) \<Rightarrow>
          if e \<le> i then None
          else map_option ((#) (idx, e, cap)) (exec_all re s e))"
  by pat_completeness auto
termination
proof (relation "measure (\<lambda>(re, s, i). length s - i)")
  show "wf (measure (\<lambda>(re, s, i). length s - i))" by simp
next
  fix re s i x2 idx y e cap
  assume "search re s i = Some x2" "(idx, y) = x2" "(e, cap) = y" "\<not> e \<le> i"
  then have "search re s i = Some (idx, e, cap)" by simp
  from search_bounds[OF this] \<open>\<not> e \<le> i\<close>
  show "((re, s, e), (re, s, i)) \<in> measure (\<lambda>(re, s, i). length s - i)" by auto
qed

declare exec_all.simps [simp del]

section \<open>The mock lint engine (useTextlint.ts)\<close>

record TextlintMessage =
  type :: jsstring
  ruleId :: jsstring
  message :: jsstring
  line :: int
  column :: int
  severity :: int

record LintResult =
  messages :: "TextlintMessage list"
  errorCount :: int
  warningCount :: int

definition push :: "jsstring \<Rightarrow> jsstring \<Rightarrow> int \<Rightarrow> int \<Rightarrow> int \<Rightarrow> TextlintMessage" where
  "push rid txt ln col sev =
     \<lparr>type = ascii ''lint'', ruleId = rid, message = txt, line = ln, column = col, severity = sev\<rparr>"

text \<open>\<open>(match.index || 0) + 1\<close> and the text of group 1 in a template string.\<close>

definition match_column :: "rmatch \<Rightarrow> int" where
  "match_column m = int (fst m) + 1"

definition group1 :: "rmatch \<Rightarrow> jsstring" where
  "group1 m = (case snd (snd m) of Some c \<Rightarrow> c | None \<Rightarrow> ascii ''undefined'')"

text \<open>The \<open>while\<close> loop over \<open>exec\<close>, pushing one message for each match.\<close>

definition while_exec :: "item list \<Rightarrow> jsstring \<Rightarrow> (rmatch \<Rightarrow> 'a) \<Rightarrow> 'a list option" where
  "while_exec re s mk = map_option (map mk) (exec_all re s 0)"

text \<open>\<open>patterns.forEach(...)\<close>, each callback running to its end before the next.\<close>

primrec forEach :: "('a \<Rightarrow> 'b list option) \<Rightarrow> 'a list \<Rightarrow> 'b list option" where
  "forEach f [] = Some []"
| "forEach f (x # xs) =
     (case f x of
        None \<Rightarrow> None
      | Some a \<Rightarrow> (case forEach f xs of None \<Rightarrow> None | Some b \<Rightarrow> Some (a @ b)))"

subsection \<open>1. Exclamation and question marks\<close>

definition exclamationPattern :: "item list" where
  "exclamationPattern = [Rep (CC False [(0xFF01, 0xFF01), (0x21, 0x21), (0xFF1F, 0xFF1F), (0x3F, 0x3F)]) 1 None]"

definition exclamationMessage :: jsstring where
  "exclamationMessage =
     [0x6587, 0x672B, 0x306B, 0x611F, 0x5606, 0x7B26, 0x3084, 0x7591, 0x554F, 0x7B26, 0x3092,
      0x4F7F, 0x7528, 0x3057, 0x306A, 0x3044, 0x3067, 0x304F, 0x3060, 0x3055, 0x3044]"

definition check_exclamation :: "jsstring \<Rightarrow> int \<Rightarrow> TextlintMessage list option" where
  "check_exclamation lineText currentLine =
     while_exec exclamationPattern lineText
       (\<lambda>m. push (ascii ''no-exclamation-question-mark'') exclamationMessage
               currentLine (match_column m) 2)"

subsection \<open>2. Sentence length\<close>

definition sentence_delimiter :: "nat \<Rightarrow> bool" where
  "sentence_delimiter = in_class (CC False [(0x3002, 0x3002), (0xFF0E, 0xFF0E)])"

definition sentenceLengthMessage :: "nat \<Rightarrow> jsstring" where
  "sentenceLengthMessage n =
     [0x6587, 0x304C, 0x9577, 0x3059, 0x304E, 0x307E, 0x3059, 0x3002, 0x31, 0x30, 0x30, 0x6587,
      0x5B57, 0x4EE5, 0x5185, 0x306B, 0x3057, 0x3066, 0x304F, 0x3060, 0x3055, 0x3044, 0x3002,
      0x73FE, 0x5728, 0x306E, 0x6587, 0x5B57, 0x6570, 0x3A, 0x20] @ decimal n"

text \<open>The \<open>forEach\<close> over the sentences, with the running \<open>currentColumn\<close>.\<close>

fun sentences_forEach :: "jsstring list \<Rightarrow> int \<Rightarrow> int \<Rightarrow> TextlintMessage list" where
  "sentences_forEach [] currentColumn currentLine = []"
| "sentences_forEach (sentence # rest) currentColumn currentLine =
     (if length sentence > 100
      then [push (ascii ''sentence-length'') (sentenceLengthMessage (length sentence))
              currentLine currentColumn 2]
      else [])
     @ sentences_forEach rest (currentColumn + int (length sentence) + 1) currentLine"

definition check_sentence_length :: "jsstring \<Rightarrow> int \<Rightarrow> TextlintMessage list" where
  "check_sentence_length lineText currentLine =
     sentences_forEach (split sentence_delimiter lineText) 1 currentLine"

subsection \<open>3. Redundant expressions\<close>

definition redundantPhrases :: "(item list \<times> jsstring) list" where
  "redundantPhrases =
     [(lit [0x307E, 0x305A, 0x6700, 0x521D, 0x306B],
       [0x300C, 0x307E, 0x305A, 0x300D, 0x307E, 0x305F, 0x306F, 0x300C, 0x6700, 0x521D, 0x306B, 0x300D]),
      (lit [0x3059, 0x308B, 0x3053, 0x3068, 0x304C, 0x3067, 0x304D, 0x308B],
       [0x300C, 0x3067, 0x304D, 0x308B, 0x300D]),
      (lit [0x3059, 0x308B, 0x3053, 0x3068, 0x304C, 0x53EF, 0x80FD],
       [0x300C, 0x53EF, 0x80FD, 0x300D])]"

definition redundantMessage :: "jsstring \<Rightarrow> jsstring" where
  "redundantMessage suggestion =
     [0x5197, 0x9577, 0x306A, 0x8868, 0x73FE, 0x3067, 0x3059, 0x3002] @ suggestion
     @ [0x3092, 0x4F7F, 0x7528, 0x3057, 0x3066, 0x304F, 0x3060, 0x3055, 0x3044]"

definition check_redundant :: "jsstring \<Rightarrow> int \<Rightarrow> TextlintMessage list option" where
  "check_redundant lineText currentLine =
     forEach (\<lambda>(pattern, suggestion).
        while_exec pattern lineText
          (\<lambda>m. push (ascii ''ja-no-redundant-expression'') (redundantMessage suggestion)
                  currentLine (match_column m) 1))
       redundantPhrases"

subsection \<open>4. Weak phrases\<close>

definition weakPhrases :: "item list list" where
  "weakPhrases =
     [lit [0x304B, 0x3082, 0x3057, 0x308C, 0x306A, 0x3044],
      lit [0x601D, 0x3046],
      lit [0x3060, 0x308D, 0x3046]]"

definition weakMessage :: jsstring where
  "weakMessage =
     [0x5F31, 0x3044, 0x8868, 0x73FE, 0x3092, 0x4F7F, 0x7528, 0x3057, 0x3066, 0x3044, 0x307E,
      0x3059, 0x3002, 0x3088, 0x308A, 0x660E, 0x78BA, 0x306A, 0x8868, 0x73FE, 0x3092, 0x691C,
      0x8A0E, 0x3057, 0x3066, 0x304F, 0x3060, 0x3055, 0x3044]"

definition check_weak :: "jsstring \<Rightarrow> int \<Rightarrow> TextlintMessage list option" where
  "check_weak lineText currentLine =
     forEach (\<lambda>pattern.
        while_exec pattern lineText
          (\<lambda>m. push (ascii ''ja-no-weak-phrase'') weakMessage currentLine (match_column m) 1))
       weakPhrases"

subsection \<open>5. Doubled particles\<close>

definition joshi :: "(nat \<times> nat) list" where
  "joshi = [(0x306F, 0x306F), (0x304C, 0x304C), (0x3092, 0x3092), (0x306B, 0x306B)]"

definition doubleJoshiPattern :: "item list" where
  "doubleJoshiPattern =
     [Open, Rep (CC False joshi) 1 (Some 1), Close, Rep (CC True joshi) 0 (Some 10), BackRef]"

definition doubleJoshiMessage :: "jsstring \<Rightarrow> jsstring" where
  "doubleJoshiMessage particle =
     [0x52A9, 0x8A5E, 0x300C] @ particle
     @ [0x300D, 0x304C, 0x9023, 0x7D9A, 0x3057, 0x3066, 0x4F7F, 0x7528, 0x3055, 0x308C, 0x3066,
        0x3044, 0x307E, 0x3059]"

definition check_doubled_joshi :: "jsstring \<Rightarrow> int \<Rightarrow> TextlintMessage list option" where
  "check_doubled_joshi lineText currentLine =
     while_exec doubleJoshiPattern lineText
       (\<lambda>m. push (ascii ''no-doubled-joshi'') (doubleJoshiMessage (group1 m))
               currentLine (match_column m) 1)"

subsection \<open>6. Successive words\<close>

definition latin :: "(nat \<times> nat) list" where
  "latin = [(0x61, 0x7A), (0x41, 0x5A)]"

definition japaneseWordPattern :: "item list" where
  "japaneseWordPattern =
     [Open, Rep (CC False [(0x3040, 0x309F), (0x30A0, 0x30FF), (0x4E00, 0x9FAF)]) 2 None, Close,
      BackRef]"

definition englishWordPattern :: "item list" where
  "englishWordPattern = [Open, Rep (CC False latin) 3 None, Close, BackRef]"

definition englishWordPatternWithSpace :: "item list" where
  "englishWordPatternWithSpace =
     [WordB, Open, Rep (CC False latin) 2 None, Close, Rep (CC False ws_ranges) 1 None, BackRef,
      WordB]"

definition successiveMessage :: "jsstring \<Rightarrow> jsstring" where
  "successiveMessage w =
     [0x300C] @ w @ [0x300D, 0x304C, 0x9023, 0x7D9A, 0x3057, 0x3066, 0x3044, 0x307E, 0x3059]"

definition successiveSpaceMessage :: "jsstring \<Rightarrow> jsstring" where
  "successiveSpaceMessage w =
     [0x300C] @ w
     @ [0x300D, 0x304C, 0x9023, 0x7D9A, 0x3057, 0x3066, 0x3044, 0x307E, 0x3059, 0xFF08, 0x30B9,
        0x30DA, 0x30FC, 0x30B9, 0x533A, 0x5207, 0x308A, 0xFF09]"

definition check_successive ::
  "item list \<Rightarrow> (jsstring \<Rightarrow> jsstring) \<Rightarrow> jsstring \<Rightarrow> int \<Rightarrow> TextlintMessage list option" where
  "check_successive pattern msg lineText currentLine =
     while_exec pattern lineText
       (\<lambda>m. push (ascii ''ja-no-successive-word'') (msg (group1 m)) currentLine (match_column m) 2)"

subsection \<open>7. Ra-nuki forms\<close>

definition ranukiPatterns :: "item list list" where
  "ranukiPatterns =
     [lit [0x98DF, 0x3079, 0x308C, 0x308B],
      lit [0x898B, 0x308C, 0x308B],
      lit [0x7740, 0x308C, 0x308B],
      lit [0x8003, 0x3048, 0x308C, 0x308B]]"

definition ranukiMessage :: jsstring where
  "ranukiMessage =
     [0x3089, 0x629C, 0x304D, 0x8A00, 0x8449, 0x3092, 0x4F7F, 0x7528, 0x3057, 0x3066, 0x3044,
      0x307E, 0x3059]"

definition check_ranuki :: "jsstring \<Rightarrow> int \<Rightarrow> TextlintMessage list option" where
  "check_ranuki lineText currentLine =
     forEach (\<lambda>pattern.
        while_exec pattern lineText
          (\<lambda>m. push (ascii ''ja-no-abusage'') ranukiMessage currentLine (match_column m) 1))
       ranukiPatterns"

subsection \<open>8. Runs of kanji\<close>

definition kanjiPattern :: "item list" where
  "kanjiPattern = [Rep (CC False [(0x4E00, 0x9FAF)]) 7 None]"

definition kanjiMessage :: "nat \<Rightarrow> jsstring" where
  "kanjiMessage n =
     [0x9023, 0x7D9A, 0x3059, 0x308B, 0x6F22, 0x5B57, 0x304C, 0x9577, 0x3059, 0x304E, 0x307E,
      0x3059, 0xFF08] @ decimal n
     @ [0x6587, 0x5B57, 0xFF09, 0x3002, 0x36, 0x6587, 0x5B57, 0x4EE5, 0x5185, 0x306B, 0x3057,
        0x3066, 0x304F, 0x3060, 0x3055, 0x3044]"

text \<open>\<open>lineText.match(pattern)\<close> without the \<open>g\<close> flag is the first match from 0.\<close>

definition check_kanji :: "jsstring \<Rightarrow> int \<Rightarrow> TextlintMessage list" where
  "check_kanji lineText currentLine =
     (case search kanjiPattern lineText 0 of
        None \<Rightarrow> []
      | Some (idx, e, cap) \<Rightarrow>
          (let kanjiSequence = take (e - idx) (drop idx lineText)
           in [push (ascii ''max-kanji-continuous-len'') (kanjiMessage (length kanjiSequence))
                 currentLine (indexOf lineText kanjiSequence + 1) 1]))"

subsection \<open>9. AI-style expressions\<close>

definition aiPatterns :: "(item list \<times> jsstring) list" where
  "aiPatterns =
     [(lit [0x9769, 0x547D, 0x7684, 0x306A], ascii ''no-ai-hype-expressions''),
      (lit [0x753B, 0x671F, 0x7684, 0x306A], ascii ''no-ai-hype-expressions''),
      (lit [0x2705], ascii ''no-ai-list-formatting''),
      (lit [0x2A, 0x2A] @ [Rep (CC True [(0x2A, 0x2A)]) 1 None] @ lit [0x2A, 0x2A, 0x3A],
       ascii ''no-ai-emphasis-patterns'')]"

definition aiMessage :: jsstring where
  "aiMessage =
     [0x41, 0x49, 0x751F, 0x6210, 0x6587, 0x66F8, 0x306B, 0x898B, 0x3089, 0x308C, 0x308B, 0x8868,
      0x73FE, 0x30D1, 0x30BF, 0x30FC, 0x30F3, 0x3067, 0x3059]"

definition check_ai :: "jsstring \<Rightarrow> int \<Rightarrow> TextlintMessage list option" where
  "check_ai lineText currentLine =
     forEach (\<lambda>(pattern, rid).
        while_exec pattern lineText
          (\<lambda>m. push rid aiMessage currentLine (match_column m) 1))
       aiPatterns"

subsection \<open>10. Colons\<close>

definition colonMessage :: jsstring where
  "colonMessage =
     [0x30B3, 0x30ED, 0x30F3, 0x306E, 0x4F7F, 0x7528, 0x306F, 0x907F, 0x3051, 0x3066, 0x304F,
      0x3060, 0x3055, 0x3044]"

definition check_colon :: "jsstring \<Rightarrow> int \<Rightarrow> TextlintMessage list" where
  "check_colon lineText currentLine =
     (if includes_str lineText [0x3A] \<or> includes_str lineText [0xFF1A]
      then (let colonIndex = max (indexOf lineText [0x3A]) (indexOf lineText [0xFF1A])
            in [push (ascii ''no-ai-colon-continuation'') colonMessage
                  currentLine (colonIndex + 1) 1])
      else [])"

subsection \<open>The engine\<close>

text \<open>The callback of \<open>lines.forEach((lineText, lineIndex) => ...)\<close>.\<close>

definition lint_line :: "jsstring \<Rightarrow> nat \<Rightarrow> TextlintMessage list option" where
  "lint_line lineText lineIndex =
     (let currentLine = int lineIndex + 1 in
      do {
        m1 \<leftarrow> check_exclamation lineText currentLine;
        m3 \<leftarrow> check_redundant lineText currentLine;
        m4 \<leftarrow> check_weak lineText currentLine;
        m5 \<leftarrow> check_doubled_joshi lineText currentLine;
        m6a \<leftarrow> check_successive japaneseWordPattern successiveMessage lineText currentLine;
        m6b \<leftarrow> check_successive englishWordPattern successiveMessage lineText currentLine;
        m6c \<leftarrow> check_successive englishWordPatternWithSpace successiveSpaceMessage
                 lineText currentLine;
        m7 \<leftarrow> check_ranuki lineText currentLine;
        m9 \<leftarrow> check_ai lineText currentLine;
        Some (m1 @ check_sentence_length lineText currentLine @ m3 @ m4 @ m5 @ m6a @ m6b @ m6c
              @ m7 @ check_kanji lineText currentLine @ m9 @ check_colon lineText currentLine)
      })"

primrec lines_forEach ::
  "(jsstring \<Rightarrow> nat \<Rightarrow> TextlintMessage list option) \<Rightarrow> jsstring list \<Rightarrow> nat
   \<Rightarrow> TextlintMessage list option" where
  "lines_forEach f [] lineIndex = Some []"
| "lines_forEach f (lineText # rest) lineIndex =
     (case f lineText lineIndex of
        None \<Rightarrow> None
      | Some a \<Rightarrow>
          (case lines_forEach f rest (Suc lineIndex) of None \<Rightarrow> None | Some b \<Rightarrow> Some (a @ b)))"

definition result_of :: "TextlintMessage list \<Rightarrow> LintResult" where
  "result_of msgs =
     \<lparr>messages = msgs,
      errorCount = int (length (filter (\<lambda>m. severity m = 2) msgs)),
      warningCount = int (length (filter (\<lambda>m. severity m = 1) msgs))\<rparr>"

definition lines_of :: "jsstring \<Rightarrow> jsstring list" where
  "lines_of text = split (\<lambda>c. c = 0x0A) text"

definition generateMockLintResult :: "jsstring \<Rightarrow> LintResult option" where
  "generateMockLintResult text =
     map_option result_of (lines_forEach lint_line (lines_of text) 0)"

subsection \<open>The second copy of the engine\<close>

text \<open>
  The file holds a second \<open>generateMockLintResult\<close> that differs in three rules: the
  sentence-length rule measures the whole line, and the doubled-particle and
  successive-word rules report the first match only.
\<close>

definition check_sentence_length2 :: "jsstring \<Rightarrow> int \<Rightarrow> TextlintMessage list" where
  "check_sentence_length2 lineText currentLine =
     (if length lineText > 100
      then [push (ascii ''sentence-length'') (sentenceLengthMessage (length lineText))
              currentLine 1 2]
      else [])"

definition check_doubled_joshi2 :: "jsstring \<Rightarrow> int \<Rightarrow> TextlintMessage list" where
  "check_doubled_joshi2 lineText currentLine =
     (case search doubleJoshiPattern lineText 0 of
        None \<Rightarrow> []
      | Some (idx, e, cap) \<Rightarrow>
          [push (ascii ''no-doubled-joshi'') (doubleJoshiMessage (group1 (idx, e, cap)))
             currentLine (indexOf lineText (take (e - idx) (drop idx lineText)) + 1) 1])"

definition consecutiveWordsPattern :: "item list" where
  "consecutiveWordsPattern = [Open, Rep (CC True ws_ranges) 1 None, Close, BackRef]"

definition check_successive2 :: "jsstring \<Rightarrow> int \<Rightarrow> TextlintMessage list" where
  "check_successive2 lineText currentLine =
     (case search consecutiveWordsPattern lineText 0 of
        None \<Rightarrow> []
      | Some (idx, e, cap) \<Rightarrow>
          [push (ascii ''ja-no-successive-word'') (successiveMessage (group1 (idx, e, cap)))
             currentLine (indexOf lineText (take (e - idx) (drop idx lineText)) + 1) 2])"

definition lint_line2 :: "jsstring \<Rightarrow> nat \<Rightarrow> TextlintMessage list option" where
  "lint_line2 lineText lineIndex =
     (let currentLine = int lineIndex + 1 in
      do {
        m1 \<leftarrow> check_exclamation lineText currentLine;
        m3 \<leftarrow> check_redundant lineText currentLine;
        m4 \<leftarrow> check_weak lineText currentLine;
        m7 \<leftarrow> check_ranuki lineText currentLine;
        m9 \<leftarrow> check_ai lineText currentLine;
        Some (m1 @ check_sentence_length2 lineText currentLine @ m3 @ m4
              @ check_doubled_joshi2 lineText currentLine
              @ check_successive2 lineText currentLine
              @ m7 @ check_kanji lineText currentLine @ m9 @ check_colon lineText currentLine)
      })"

definition generateMockLintResult2 :: "jsstring \<Rightarrow> LintResult option" where
  "generateMockLintResult2 text =
     map_option result_of (lines_forEach lint_line2 (lines_of text) 0)"

section \<open>The page component: context snippets, selection, filtering, debounce\<close>

subsection \<open>The word at an error position\<close>

text \<open>
  \<open>getErrorContext\<close> and \<open>scrollToError\<close> both find the end of the flagged word with
  \<open>restOfLine.match(/^[^\s...]+/)\<close> followed by
  \<open>wordMatch ? wordMatch[0].length : 1\<close>. The excluded characters are white space, the
  ideographic and full-width comma and full stop, the full-width and ASCII exclamation
  and question marks, the ASCII comma and full stop, and the ideographic space.
\<close>

definition boundary_ranges :: "(nat \<times> nat) list" where
  "boundary_ranges =
     ws_ranges @ [(0x3001, 0x3001), (0x3002, 0x3002), (0xFF0C, 0xFF0C), (0xFF0E, 0xFF0E),
                  (0xFF01, 0xFF01), (0xFF1F, 0xFF1F), (0x21, 0x21), (0x3F, 0x3F), (0x2C, 0x2C),
                  (0x2E, 0x2E), (0x3000, 0x3000)]"

definition wordPattern :: "item list" where
  "wordPattern = [Bol, Rep (CC True boundary_ranges) 1 None]"

definition wordLength :: "jsstring \<Rightarrow> int" where
  "wordLength restOfLine =
     (case search wordPattern restOfLine 0 of
        None \<Rightarrow> 1
      | Some (idx, e, cap) \<Rightarrow> int (length (take (e - idx) (drop idx restOfLine))))"

subsection \<open>getErrorContext\<close>

record ErrorContext =
  before :: jsstring
  error :: jsstring
  after :: jsstring

definition ellipsis :: jsstring where
  "ellipsis = ascii ''...''"

text \<open>The constants of the function body, each as a function of what it depends on.\<close>

definition errorStart :: "int \<Rightarrow> int" where
  "errorStart col = max 0 (col - 1)"

definition errorLength :: "jsstring \<Rightarrow> int \<Rightarrow> int" where
  "errorLength lineText col = wordLength (substring_from lineText (errorStart col))"

definition errorEnd :: "jsstring \<Rightarrow> int \<Rightarrow> int" where
  "errorEnd lineText col = errorStart col + errorLength lineText col"

definition beforeStart :: "int \<Rightarrow> int \<Rightarrow> int" where
  "beforeStart col contextLength = max 0 (errorStart col - contextLength)"

definition afterEnd :: "jsstring \<Rightarrow> int \<Rightarrow> int \<Rightarrow> int" where
  "afterEnd lineText col contextLength =
     min (int (length lineText)) (errorEnd lineText col + contextLength)"

text \<open>The page calls it with the default \<open>contextLength = 20\<close>.\<close>

definition getErrorContext :: "jsstring \<Rightarrow> int \<Rightarrow> int \<Rightarrow> int \<Rightarrow> ErrorContext" where
  "getErrorContext text ln col contextLength =
     (let lines = lines_of text in
      if ln < 1 \<or> ln > int (length lines) then \<lparr>before = [], error = [], after = []\<rparr>
      else
        (let lineText = lines ! nat (ln - 1)
         in \<lparr>before = (if beforeStart col contextLength > 0 then ellipsis else [])
                        @ substring lineText (beforeStart col contextLength) (errorStart col),
             error = substring lineText (errorStart col) (errorEnd lineText col),
             after = substring lineText (errorEnd lineText col)
                       (afterEnd lineText col contextLength)
                     @ (if afterEnd lineText col contextLength < int (length lineText)
                        then ellipsis else [])\<rparr>))"

subsection \<open>scrollToError: the selected range\<close>

text \<open>
  The part of \<open>scrollToError\<close> that computes the selection: the character index of the
  position in the whole text, the selection length and the selected text.
  \<open>lines[line - 1]?.substring(column - 1) || ''\<close> is the empty string when the line
  does not exist.
\<close>

definition selection :: "jsstring \<Rightarrow> int \<Rightarrow> int \<Rightarrow> int \<times> int \<times> jsstring" where
  "selection text ln col =
     (let lines = lines_of text;
          charIndex = (\<Sum>l \<leftarrow> take (nat (ln - 1)) lines. int (length l) + 1) + (col - 1);
          restOfLine = (if 1 \<le> ln \<and> ln \<le> int (length lines)
                        then substring_from (lines ! nat (ln - 1)) (col - 1) else []);
          selectionLength = wordLength restOfLine
      in (charIndex, selectionLength, substring text charIndex (charIndex + selectionLength)))"

subsection \<open>filteredMessages\<close>

record Rule =
  id' :: jsstring
  name :: jsstring
  enabled :: bool
  category :: jsstring

datatype FilterType = FilterAll | FilterError | FilterWarning

definition filteredMessages ::
  "LintResult option \<Rightarrow> FilterType \<Rightarrow> Rule list \<Rightarrow> TextlintMessage list" where
  "filteredMessages lintResult filterType rules =
     (case lintResult of
        None \<Rightarrow> []
      | Some res \<Rightarrow>
          (let ruleFiltered =
                 filter (\<lambda>msg. case find (\<lambda>r. id' r = ruleId msg) rules of
                                  None \<Rightarrow> True
                                | Some rule \<Rightarrow> enabled rule)
                   (messages res)
           in case filterType of
                FilterError \<Rightarrow> filter (\<lambda>msg. severity msg = 2) ruleFiltered
              | FilterWarning \<Rightarrow> filter (\<lambda>msg. severity msg = 1) ruleFiltered
              | FilterAll \<Rightarrow> ruleFiltered))"

text \<open>The initial value of the \<open>rules\<close> state; names and categories as in the source.\<close>

definition initialRules :: "Rule list" where
  "initialRules =
     [\<lparr>id' = ascii ''no-exclamation-question-mark'',
       name = [0x611F, 0x5606, 0x7B26, 0x30FB, 0x7591, 0x554F, 0x7B26, 0x306E, 0x7981, 0x6B62],
       enabled = True, category = ascii ''technical''\<rparr>,
      \<lparr>id' = ascii ''ja-no-successive-word'',
       name = [0x9023, 0x7D9A, 0x3059, 0x308B, 0x5358, 0x8A9E],
       enabled = True, category = ascii ''technical''\<rparr>,
      \<lparr>id' = ascii ''ja-no-redundant-expression'',
       name = [0x5197, 0x9577, 0x306A, 0x8868, 0x73FE],
       enabled = True, category = ascii ''technical''\<rparr>,
      \<lparr>id' = ascii ''ja-no-weak-phrase'',
       name = [0x5F31, 0x3044, 0x8868, 0x73FE],
       enabled = True, category = ascii ''technical''\<rparr>,
      \<lparr>id' = ascii ''no-doubled-joshi'',
       name = [0x4E8C, 0x91CD, 0x52A9, 0x8A5E],
       enabled = True, category = ascii ''technical''\<rparr>,
      \<lparr>id' = ascii ''ja-no-abusage'',
       name = [0x3089, 0x629C, 0x304D, 0x8A00, 0x8449],
       enabled = True, category = ascii ''technical''\<rparr>,
      \<lparr>id' = ascii ''no-ai-hype-expressions'',
       name = [0x41, 0x49, 0x7684, 0x306A, 0x8A87, 0x5F35, 0x8868, 0x73FE],
       enabled = True, category = ascii ''ai''\<rparr>,
      \<lparr>id' = ascii ''no-ai-list-formatting'',
       name = [0x41, 0x49, 0x7684, 0x306A, 0x30EA, 0x30B9, 0x30C8, 0x66F8, 0x5F0F],
       enabled = True, category = ascii ''ai''\<rparr>,
      \<lparr>id' = ascii ''no-ai-emphasis-patterns'',
       name = [0x41, 0x49, 0x7684, 0x306A, 0x5F37, 0x8ABF, 0x30D1, 0x30BF, 0x30FC, 0x30F3],
       enabled = True, category = ascii ''ai''\<rparr>,
      \<lparr>id' = ascii ''no-ai-colon-continuation'',
       name = [0x30B3, 0x30ED, 0x30F3, 0x306E, 0x4F7F, 0x7528],
       enabled = True, category = ascii ''ai''\<rparr>]"

subsection \<open>The debounced lint effect\<close>

text \<open>
  The effect \<open>useEffect(() => { ... }, [text, lintText, isTextlintLoading])\<close> runs again
  only when one of its dependencies has changed; \<open>lintText\<close> and \<open>isTextlintLoading\<close>
  never change, so it runs again exactly when \<open>text\<close> has changed, and before it runs
  the cleanup returned by its previous run is called. Setting \<open>text\<close> to the value it
  already has changes nothing. Time is counted in milliseconds. The state of the pipeline:
  the current \<open>text\<close>; the pending debounce \<open>setTimeout\<close> (the time at which it is due and
  the text its closure holds); the texts with which \<open>lintText\<close> has been called; the
  timers that \<open>lintText\<close> has started and that have not fired yet (\<open>setTimeout\<close> of
  100 ms, with the text of the call); and the texts on which \<open>generateMockLintResult\<close>
  has run. The cleanup clears the debounce timer only: a call of \<open>lintText\<close> that has been
  made runs the engine 100 ms later whatever happens in between.
\<close>

record Pipeline =
  currentText :: jsstring
  timer :: "(nat \<times> jsstring) option"
  invocations :: "jsstring list"
  inflight :: "(nat \<times> jsstring) list"
  engineRuns :: "jsstring list"

definition white_space :: "nat \<Rightarrow> bool" where
  "white_space = in_class (CC False ws_ranges)"

definition trim :: "jsstring \<Rightarrow> jsstring" where
  "trim s = rev (dropWhile white_space (rev (dropWhile white_space s)))"

text \<open>\<open>useTextlint\<close> holds \<open>isLoading\<close> in a state that is never set: it stays false.\<close>

definition isTextlintLoading :: bool where
  "isTextlintLoading = False"

definition debounce_delay :: nat where
  "debounce_delay = 300"

definition lintText_delay :: nat where
  "lintText_delay = 100"

text \<open>
  The debounce timer fires: its callback calls \<open>lintText(text)\<close>, which starts the timer
  after which the engine runs.
\<close>

definition fire_debounce :: "nat \<Rightarrow> Pipeline \<Rightarrow> Pipeline" where
  "fire_debounce now p =
     (case timer p of
        None \<Rightarrow> p
      | Some (due, txt) \<Rightarrow>
          if due \<le> now
          then p\<lparr>timer := None, invocations := invocations p @ [txt],
                 inflight := inflight p @ [(due + lintText_delay, txt)]\<rparr>
          else p)"

text \<open>The timers of \<open>lintText\<close> that are due fire: the engine runs on their texts.\<close>

definition run_engine :: "nat \<Rightarrow> Pipeline \<Rightarrow> Pipeline" where
  "run_engine now p =
     p\<lparr>inflight := filter (\<lambda>(due, txt). now < due) (inflight p),
       engineRuns := engineRuns p @ map snd (filter (\<lambda>(due, txt). due \<le> now) (inflight p))\<rparr>"

text \<open>Time passes to \<open>now\<close>.\<close>

definition advance :: "nat \<Rightarrow> Pipeline \<Rightarrow> Pipeline" where
  "advance now p = run_engine now (fire_debounce now p)"

text \<open>The cleanup \<open>() => clearTimeout(timer)\<close> and the body of the effect.\<close>

definition cleanup :: "Pipeline \<Rightarrow> Pipeline" where
  "cleanup p = p\<lparr>timer := None\<rparr>"

definition effect :: "nat \<Rightarrow> jsstring \<Rightarrow> Pipeline \<Rightarrow> Pipeline" where
  "effect now txt p =
     (if trim txt = [] \<or> isTextlintLoading then p
      else p\<lparr>timer := Some (now + debounce_delay, txt)\<rparr>)"

text \<open>
  An edit at time \<open>now\<close> calls \<open>setText\<close>. When the text is the one the state already
  holds nothing happens; otherwise the page renders with the new text, the cleanup of the
  previous effect is called and the effect runs.
\<close>

definition edit :: "nat \<Rightarrow> jsstring \<Rightarrow> Pipeline \<Rightarrow> Pipeline" where
  "edit now txt p =
     (let q = advance now p
      in if txt = currentText q then q
         else effect now txt (cleanup (q\<lparr>currentText := txt\<rparr>)))"

text \<open>The page before any edit: the given text, nothing pending, nothing called.\<close>

definition idle :: "jsstring \<Rightarrow> Pipeline" where
  "idle txt = \<lparr>currentText = txt, timer = None, invocations = [], inflight = [], engineRuns = []\<rparr>"

section \<open>Evaluating the matcher\<close>

text \<open>
  The repetition step of \<open>match_items\<close> with the rest of the pattern named, so that
  the matcher can be run on a concrete string one position at a time.
\<close>

definition try_rep ::
  "item list \<Rightarrow> jsstring \<Rightarrow> nat \<Rightarrow> nat option \<Rightarrow> jsstring option \<Rightarrow> nat \<Rightarrow> nat
   \<Rightarrow> (nat \<times> jsstring option) option" where
  "try_rep xs s i opn cap lo k = first_from (\<lambda>k. match_items xs s (i + k) opn cap) lo k"

section \<open>Messages of the pattern rules\<close>

text \<open>
  What every message of line \<open>n\<close> from a regular-expression rule has in common: its
  line, a severity of 1 or 2, and a rule id that is neither the sentence-length nor the
  colon rule's.
\<close>

definition pattern_message :: "int \<Rightarrow> TextlintMessage \<Rightarrow> bool" where
  "pattern_message n m \<longleftrightarrow>
     line m = n \<and> (severity m = 1 \<or> severity m = 2)
     \<and> ruleId m \<noteq> ascii ''sentence-length'' \<and> ruleId m \<noteq> ascii ''no-ai-colon-continuation''"

text \<open>What the two engines share, as a property of the callback run on each line.\<close>

definition line_callback ::
  "(jsstring \<Rightarrow> int \<Rightarrow> TextlintMessage list) \<Rightarrow> (jsstring \<Rightarrow> nat \<Rightarrow> TextlintMessage list option) \<Rightarrow> bool" where
  "line_callback sl f \<longleftrightarrow>
     (\<forall>l k. \<exists>pre mid.
        f l k = Some (pre @ sl l (int k + 1) @ mid @ check_colon l (int k + 1))
        \<and> (\<forall>m\<in>set (pre @ mid). pattern_message (int k + 1) m)
        \<and> (\<forall>m\<in>set (sl l (int k + 1)).
              ruleId m = ascii ''sentence-length'' \<and> severity m = 2 \<and> line m = int k + 1))"

section \<open>Scenarios\<close>

text \<open>Scenario B: the text ``kare wa kare wa itta'' (seven characters).\<close>

definition scenarioB :: jsstring where
  "scenarioB = [0x5F7C, 0x306F, 0x5F7C, 0x306F, 0x884C, 0x3063, 0x305F]"

text \<open>Scenario E: a line with an ASCII colon at index 5 and a full-width colon at
  index 10.\<close>

definition scenarioE :: jsstring where
  "scenarioE = ascii ''abcde:ghij'' @ [0xFF1A] @ ascii ''k''"

text \<open>Scenario C: a single line of 101 letters \<open>a\<close>.\<close>

definition scenarioC :: jsstring where
  "scenarioC = replicate 101 0x61"

text \<open>A line with two boundary characters, for the context of the word at column 4.\<close>

definition contextExample :: jsstring where
  "contextExample = ascii ''ab cd, ef''"

text \<open>
  A text of two lines: \<open>x:\<close>, a line break, and the line of scenario E.
\<close>

definition colonExample :: jsstring where
  "colonExample = ascii ''x:'' @ [0x0A] @ scenarioE"

text \<open>
  A text of two lines, the second with three segments: 101 letters \<open>a\<close>, an ideographic
  full stop, one letter \<open>b\<close>, a full-width full stop, and 102 letters \<open>c\<close>.
\<close>

definition sentenceLine :: jsstring where
  "sentenceLine = replicate 101 0x61 @ [0x3002] @ [0x62] @ [0xFF0E] @ replicate 102 0x63"

definition sentenceExample :: jsstring where
  "sentenceExample = ascii ''b'' @ [0x0A] @ sentenceLine"

text \<open>A line of 60 letters, an ideographic full stop and 60 more letters.\<close>

definition twoSentences :: jsstring where
  "twoSentences = replicate 60 0x61 @ [0x3002] @ replicate 60 0x61"

text \<open>Two lines, the second the line of \<open>contextExample\<close>; and two short lines.\<close>

definition contextExample2 :: jsstring where
  "contextExample2 = ascii ''xy'' @ [0x0A] @ contextExample"

definition twoShortLines :: jsstring where
  "twoShortLines = ascii ''ab'' @ [0x0A] @ ascii ''cd''"

section \<open>The claims in the words of the specification\<close>

text \<open>
  A text is its lines with a line break between them, and a line is its segments with a
  delimiter between them: \<open>interleave\<close> puts the pieces and the separators together
  again.
\<close>

fun interleave :: "jsstring list \<Rightarrow> jsstring \<Rightarrow> jsstring" where
  "interleave [] ds = []"
| "interleave [s] ds = s"
| "interleave (s # ss) [] = s"
| "interleave (s # ss) (d # ds) = s @ d # interleave ss ds"

text \<open>The diagnostics of one rule in a result.\<close>

definition rule_diagnostics :: "jsstring \<Rightarrow> LintResult \<Rightarrow> TextlintMessage list" where
  "rule_diagnostics rid r = filter (\<lambda>m. ruleId m = rid) (messages r)"


text \<open>The position of the first occurrence of a character that occurs in a line, and
  the later of the first occurrences of the two colons.\<close>

definition first_index :: "nat \<Rightarrow> jsstring \<Rightarrow> nat" where
  "first_index c l = length (takeWhile (\<lambda>x. x \<noteq> c) l)"

definition later_colon :: "jsstring \<Rightarrow> nat" where
  "later_colon l =
     (if 0x3A \<in> set l \<and> 0xFF1A \<in> set l then max (first_index 0x3A l) (first_index 0xFF1A l)
      else if 0x3A \<in> set l then first_index 0x3A l
      else first_index 0xFF1A l)"

text \<open>
  The running offset of segment \<open>k\<close>: the lengths of the segments before it, plus one
  for each delimiter consumed. The sentence-length diagnostics of a line, one for each
  segment longer than 100 characters.
\<close>

definition segment_start :: "jsstring list \<Rightarrow> nat \<Rightarrow> nat" where
  "segment_start segs k = sum_list (map (\<lambda>s. length s + 1) (take k segs))"

definition over_length_diagnostics :: "jsstring \<Rightarrow> int \<Rightarrow> TextlintMessage list" where
  "over_length_diagnostics l n =
     (let segs = split sentence_delimiter l
      in map (\<lambda>k. \<lparr>type = ascii ''lint'', ruleId = ascii ''sentence-length'',
                    message = [0x6587, 0x304C, 0x9577, 0x3059, 0x304E, 0x307E, 0x3059, 0x3002, 0x31, 0x30,
                                0x30, 0x6587, 0x5B57, 0x4EE5, 0x5185, 0x306B, 0x3057, 0x3066, 0x304F,
                                0x3060, 0x3055, 0x3044, 0x3002, 0x73FE, 0x5728, 0x306E, 0x6587, 0x5B57,
                                0x6570, 0x3A, 0x20]
                              @ decimal (length (segs ! k)),
                    line = n, column = int (segment_start segs k) + 1, severity = 2\<rparr>)
           (filter (\<lambda>k. length (segs ! k) > 100) [0..<length segs]))"

text \<open>
  The diagnostic of the second copy of the engine, which measures the whole line.
\<close>

definition whole_line_diagnostics :: "jsstring \<Rightarrow> int \<Rightarrow> TextlintMessage list" where
  "whole_line_diagnostics l n =
     (if length l > 100
      then [\<lparr>type = ascii ''lint'', ruleId = ascii ''sentence-length'',
              message = [0x6587, 0x304C, 0x9577, 0x3059, 0x304E, 0x307E, 0x3059, 0x3002, 0x31, 0x30,
                                0x30, 0x6587, 0x5B57, 0x4EE5, 0x5185, 0x306B, 0x3057, 0x3066, 0x304F,
                                0x3060, 0x3055, 0x3044, 0x3002, 0x73FE, 0x5728, 0x306E, 0x6587, 0x5B57,
                                0x6570, 0x3A, 0x20]
                        @ decimal (length l),
              line = n, column = 1, severity = 2\<rparr>]
      else [])"

text \<open>Removing the ellipsis marker from a part of a snippet that was truncated.\<close>

definition strip_ellipsis_prefix :: "bool \<Rightarrow> jsstring \<Rightarrow> jsstring" where
  "strip_ellipsis_prefix truncated s = (if truncated then drop (length ellipsis) s else s)"

definition strip_ellipsis_suffix :: "bool \<Rightarrow> jsstring \<Rightarrow> jsstring" where
  "strip_ellipsis_suffix truncated s =
     (if truncated then take (length s - length ellipsis) s else s)"

lemma try_rep_unfold:
  "try_rep xs s i opn cap lo k =
     (if k < lo then None
      else (case match_items xs s (i + k) opn cap of
              Some r \<Rightarrow> Some r
            | None \<Rightarrow> if k = 0 then None else try_rep xs s i opn cap lo (k - 1)))"
  unfolding try_rep_def by (cases k) (auto split: option.splits)

lemma match_items_eval:
  "match_items [] s i opn cap = Some (i, cap)"
  "match_items (Rep cls lo None # xs) s i opn cap =
     try_rep xs s i opn cap lo (length (takeWhile (in_class cls) (drop i s)))"
  "match_items (Rep cls lo (Some h) # xs) s i opn cap =
     try_rep xs s i opn cap lo (min h (length (takeWhile (in_class cls) (drop i s))))"
  "match_items (Open # xs) s i opn cap = match_items xs s i (Some i) cap"
  "match_items (Close # xs) s i None cap = match_items xs s i None cap"
  "match_items (Close # xs) s i (Some j) cap =
     match_items xs s i (Some j) (Some (take (i - j) (drop j s)))"
  "match_items (BackRef # xs) s i opn None = match_items xs s i opn None"
  "match_items (BackRef # xs) s i opn (Some c) =
     (if take (length c) (drop i s) = c then match_items xs s (i + length c) opn (Some c)
      else None)"
  "match_items (WordB # xs) s i opn cap =
     (if (0 < i \<and> word_at s (i - 1)) \<noteq> word_at s i then match_items xs s i opn cap else None)"
  "match_items (Bol # xs) s i opn cap = (if i = 0 then match_items xs s i opn cap else None)"
  by (simp_all add: try_rep_def Let_def)

lemma search_aux_unfold:
  "search_aux re s n j =
     (if n = 0 then None
      else (case match_items re s j None None of
              Some (e, cap) \<Rightarrow> Some (j, e, cap)
            | None \<Rightarrow> search_aux re s (n - 1) (Suc j)))"
  by (cases n) (auto split: option.splits)

lemmas eval_regex = match_items_eval try_rep_unfold search_aux_unfold search_def exec_all.simps
  while_exec_def lit_def word_at_def word_char_def ws_ranges_def

lemmas eval_rules = check_exclamation_def exclamationPattern_def
  check_sentence_length_def sentence_delimiter_def
  check_redundant_def redundantPhrases_def check_weak_def weakPhrases_def
  check_doubled_joshi_def doubleJoshiPattern_def joshi_def
  check_successive_def japaneseWordPattern_def englishWordPattern_def
  englishWordPatternWithSpace_def latin_def
  check_ranuki_def ranukiPatterns_def check_kanji_def kanjiPattern_def
  check_ai_def aiPatterns_def check_colon_def includes_str_def indexOf_def
  check_sentence_length2_def check_doubled_joshi2_def check_successive2_def
  consecutiveWordsPattern_def group1_def match_column_def

lemmas eval_engine = generateMockLintResult_def generateMockLintResult2_def lines_of_def
  lint_line_def lint_line2_def result_of_def

section \<open>Properties of the engine\<close>

subsection \<open>Every loop of the engine ends\<close>

lemma exec_all_total: "0 < min_width re \<Longrightarrow> \<exists>ms. exec_all re s i = Some ms"
proof (induction re s i rule: exec_all.induct)
  case (1 re s i)
  show ?case
  proof (cases "search re s i")
    case None
    then show ?thesis by (simp add: exec_all.simps)
  next
    case (Some x)
    obtain idx e cap where x: "x = (idx, e, cap)" by (cases x) auto
    from search_bounds[OF Some[unfolded x]] "1.prems" have lt: "\<not> e \<le> i" by linarith
    from "1.IH"[OF Some _ _ lt, of idx "(e, cap)" cap] x "1.prems"
    obtain ms where "exec_all re s e = Some ms" by auto
    with Some x lt show ?thesis by (simp add: exec_all.simps)
  qed
qed

lemma while_exec_total:
  assumes "0 < min_width re"
  shows "\<exists>ms. while_exec re s mk = Some ms \<and> set ms \<subseteq> range mk"
proof -
  from exec_all_total[OF assms] obtain xs where "exec_all re s 0 = Some xs" by blast
  then have "while_exec re s mk = Some (map mk xs)" by (simp add: while_exec_def)
  then show ?thesis by auto
qed

lemma forEach_total:
  assumes "\<And>x. x \<in> set xs \<Longrightarrow> \<exists>ms. f x = Some ms \<and> (\<forall>m\<in>set ms. P m)"
  shows "\<exists>ms. forEach f xs = Some ms \<and> (\<forall>m\<in>set ms. P m)"
  using assms
proof (induction xs)
  case Nil
  then show ?case by simp
next
  case (Cons x xs)
  from Cons.prems[of x] obtain a where a: "f x = Some a" "\<forall>m\<in>set a. P m" by auto
  from Cons.IH Cons.prems obtain b where b: "forEach f xs = Some b" "\<forall>m\<in>set b. P m"
    by (meson list.set_intros(2))
  from a b show ?case by auto
qed

lemma pattern_message_push:
  "sev = 1 \<or> sev = 2 \<Longrightarrow> rid \<noteq> ascii ''sentence-length''
   \<Longrightarrow> rid \<noteq> ascii ''no-ai-colon-continuation''
   \<Longrightarrow> pattern_message n (push rid txt n col sev)"
  by (simp add: pattern_message_def push_def)

lemma while_exec_pattern:
  assumes "0 < min_width re" and "\<And>x. pattern_message n (mk x)"
  shows "\<exists>ms. while_exec re s mk = Some ms \<and> (\<forall>m\<in>set ms. pattern_message n m)"
proof -
  from while_exec_total[OF assms(1), of s mk]
  obtain ms where ms: "while_exec re s mk = Some ms" "set ms \<subseteq> range mk" by blast
  from ms(2) assms(2) have "\<forall>m\<in>set ms. pattern_message n m" by blast
  with ms(1) show ?thesis by blast
qed

lemma while_exec_push:
  assumes "0 < min_width re" "sev = 1 \<or> sev = 2" "rid \<noteq> ascii ''sentence-length''"
    "rid \<noteq> ascii ''no-ai-colon-continuation''"
  shows "\<exists>ms. while_exec re s (\<lambda>m. push rid (txt m) n (match_column m) sev) = Some ms
              \<and> (\<forall>m\<in>set ms. pattern_message n m)"
  by (rule while_exec_pattern[OF assms(1)]) (rule pattern_message_push[OF assms(2-4)])

lemma check_exclamation_ok:
  "\<exists>ms. check_exclamation l n = Some ms \<and> (\<forall>m\<in>set ms. pattern_message n m)"
  unfolding check_exclamation_def
  by (rule while_exec_push) (simp_all add: exclamationPattern_def ascii_def)

lemma check_redundant_ok:
  "\<exists>ms. check_redundant l n = Some ms \<and> (\<forall>m\<in>set ms. pattern_message n m)"
  unfolding check_redundant_def
proof (rule forEach_total)
  fix x assume "x \<in> set redundantPhrases"
  then have "0 < min_width (fst x)" by (auto simp: redundantPhrases_def lit_def)
  then have "\<exists>ms. while_exec (fst x) l
             (\<lambda>m. push (ascii ''ja-no-redundant-expression'') (redundantMessage (snd x)) n
                     (match_column m) 1) = Some ms \<and> (\<forall>m\<in>set ms. pattern_message n m)"
    by (rule while_exec_push) (simp_all add: ascii_def)
  then show "\<exists>ms. (case x of (pattern, suggestion) \<Rightarrow>
           while_exec pattern l
             (\<lambda>m. push (ascii ''ja-no-redundant-expression'') (redundantMessage suggestion) n
                     (match_column m) 1)) = Some ms \<and> (\<forall>m\<in>set ms. pattern_message n m)"
    by (simp add: case_prod_beta)
qed

lemma check_weak_ok:
  "\<exists>ms. check_weak l n = Some ms \<and> (\<forall>m\<in>set ms. pattern_message n m)"
  unfolding check_weak_def
proof (rule forEach_total)
  fix x assume "x \<in> set weakPhrases"
  then have "0 < min_width x" by (auto simp: weakPhrases_def lit_def)
  then show "\<exists>ms. while_exec x l (\<lambda>m. push (ascii ''ja-no-weak-phrase'') weakMessage n (match_column m) 1)
                = Some ms \<and> (\<forall>m\<in>set ms. pattern_message n m)"
    by (rule while_exec_push) (simp_all add: ascii_def)
qed

lemma check_ranuki_ok:
  "\<exists>ms. check_ranuki l n = Some ms \<and> (\<forall>m\<in>set ms. pattern_message n m)"
  unfolding check_ranuki_def
proof (rule forEach_total)
  fix x assume "x \<in> set ranukiPatterns"
  then have "0 < min_width x" by (auto simp: ranukiPatterns_def lit_def)
  then show "\<exists>ms. while_exec x l (\<lambda>m. push (ascii ''ja-no-abusage'') ranukiMessage n (match_column m) 1)
                = Some ms \<and> (\<forall>m\<in>set ms. pattern_message n m)"
    by (rule while_exec_push) (simp_all add: ascii_def)
qed

lemma check_ai_ok:
  "\<exists>ms. check_ai l n = Some ms \<and> (\<forall>m\<in>set ms. pattern_message n m)"
  unfolding check_ai_def
proof (rule forEach_total)
  fix x assume x: "x \<in> set aiPatterns"
  then have w: "0 < min_width (fst x)" by (auto simp: aiPatterns_def lit_def)
  from x have r: "snd x \<noteq> ascii ''sentence-length''" "snd x \<noteq> ascii ''no-ai-colon-continuation''"
    by (auto simp: aiPatterns_def ascii_def)
  have "\<exists>ms. while_exec (fst x) l (\<lambda>m. push (snd x) aiMessage n (match_column m) 1) = Some ms
           \<and> (\<forall>m\<in>set ms. pattern_message n m)"
    by (rule while_exec_push[OF w _ r]) simp
  then show "\<exists>ms. (case x of (pattern, rid) \<Rightarrow>
           while_exec pattern l (\<lambda>m. push rid aiMessage n (match_column m) 1)) = Some ms
           \<and> (\<forall>m\<in>set ms. pattern_message n m)"
    by (simp add: case_prod_beta)
qed

lemma check_doubled_joshi_ok:
  "\<exists>ms. check_doubled_joshi l n = Some ms \<and> (\<forall>m\<in>set ms. pattern_message n m)"
  unfolding check_doubled_joshi_def
  by (rule while_exec_push) (simp_all add: doubleJoshiPattern_def ascii_def)

lemma check_successive_ok:
  assumes "0 < min_width re"
  shows "\<exists>ms. check_successive re msg l n = Some ms \<and> (\<forall>m\<in>set ms. pattern_message n m)"
  unfolding check_successive_def
  by (rule while_exec_push) (simp_all add: assms ascii_def)

lemma check_kanji_ok: "\<forall>m\<in>set (check_kanji l n). pattern_message n m"
  by (auto simp: check_kanji_def pattern_message_def push_def ascii_def Let_def split: option.splits)

lemma check_doubled_joshi2_ok: "\<forall>m\<in>set (check_doubled_joshi2 l n). pattern_message n m"
  by (auto simp: check_doubled_joshi2_def pattern_message_def push_def ascii_def split: option.splits)

lemma check_successive2_ok: "\<forall>m\<in>set (check_successive2 l n). pattern_message n m"
  by (auto simp: check_successive2_def pattern_message_def push_def ascii_def split: option.splits)

lemma check_sentence_length_msgs:
  "\<forall>m\<in>set (sentences_forEach ss c n).
     ruleId m = ascii ''sentence-length'' \<and> severity m = 2 \<and> line m = n"
  by (induction ss c n rule: sentences_forEach.induct) (auto simp: push_def)

lemma check_sentence_length2_msgs:
  "\<forall>m\<in>set (check_sentence_length2 l n).
     ruleId m = ascii ''sentence-length'' \<and> severity m = 2 \<and> line m = n"
  by (simp add: check_sentence_length2_def push_def)

lemma check_colon_msgs:
  "\<forall>m\<in>set (check_colon l n).
     ruleId m = ascii ''no-ai-colon-continuation'' \<and> severity m = 1 \<and> line m = n"
  by (simp add: check_colon_def push_def Let_def)

text \<open>The messages of one line: those of the sentence-length rule and of the colon rule,
  among messages of the pattern rules.\<close>

lemma lint_line_shape:
  "\<exists>pre mid. lint_line l k =
       Some (pre @ check_sentence_length l (int k + 1) @ mid @ check_colon l (int k + 1))
     \<and> (\<forall>m\<in>set (pre @ mid). pattern_message (int k + 1) m)"
proof -
  define n where "n = int k + 1"
  obtain m1 where m1: "check_exclamation l n = Some m1" "\<forall>m\<in>set m1. pattern_message n m"
    using check_exclamation_ok by blast
  obtain m3 where m3: "check_redundant l n = Some m3" "\<forall>m\<in>set m3. pattern_message n m"
    using check_redundant_ok by blast
  obtain m4 where m4: "check_weak l n = Some m4" "\<forall>m\<in>set m4. pattern_message n m"
    using check_weak_ok by blast
  obtain m5 where m5: "check_doubled_joshi l n = Some m5" "\<forall>m\<in>set m5. pattern_message n m"
    using check_doubled_joshi_ok by blast
  have w: "0 < min_width japaneseWordPattern" "0 < min_width englishWordPattern"
    "0 < min_width englishWordPatternWithSpace"
    by (simp_all add: japaneseWordPattern_def englishWordPattern_def
        englishWordPatternWithSpace_def)
  obtain m6a where m6a: "check_successive japaneseWordPattern successiveMessage l n = Some m6a"
    "\<forall>m\<in>set m6a. pattern_message n m"
    using check_successive_ok[OF w(1)] by blast
  obtain m6b where m6b: "check_successive englishWordPattern successiveMessage l n = Some m6b"
    "\<forall>m\<in>set m6b. pattern_message n m"
    using check_successive_ok[OF w(2)] by blast
  obtain m6c where m6c:
    "check_successive englishWordPatternWithSpace successiveSpaceMessage l n = Some m6c"
    "\<forall>m\<in>set m6c. pattern_message n m"
    using check_successive_ok[OF w(3)] by blast
  obtain m7 where m7: "check_ranuki l n = Some m7" "\<forall>m\<in>set m7. pattern_message n m"
    using check_ranuki_ok by blast
  obtain m9 where m9: "check_ai l n = Some m9" "\<forall>m\<in>set m9. pattern_message n m"
    using check_ai_ok by blast
  define mid where "mid = m3 @ m4 @ m5 @ m6a @ m6b @ m6c @ m7 @ check_kanji l n @ m9"
  have "lint_line l k = Some (m1 @ check_sentence_length l n @ mid @ check_colon l n)"
    unfolding lint_line_def Let_def n_def[symmetric] mid_def
    by (simp add: m1(1) m3(1) m4(1) m5(1) m6a(1) m6b(1) m6c(1) m7(1) m9(1))
  moreover have "\<forall>m\<in>set (m1 @ mid). pattern_message n m"
    unfolding mid_def using m1(2) m3(2) m4(2) m5(2) m6a(2) m6b(2) m6c(2) m7(2) m9(2)
      check_kanji_ok[of l n] by auto
  ultimately show ?thesis unfolding n_def by blast
qed

lemma lint_line2_shape:
  "\<exists>pre mid. lint_line2 l k =
       Some (pre @ check_sentence_length2 l (int k + 1) @ mid @ check_colon l (int k + 1))
     \<and> (\<forall>m\<in>set (pre @ mid). pattern_message (int k + 1) m)"
proof -
  define n where "n = int k + 1"
  obtain m1 where m1: "check_exclamation l n = Some m1" "\<forall>m\<in>set m1. pattern_message n m"
    using check_exclamation_ok by blast
  obtain m3 where m3: "check_redundant l n = Some m3" "\<forall>m\<in>set m3. pattern_message n m"
    using check_redundant_ok by blast
  obtain m4 where m4: "check_weak l n = Some m4" "\<forall>m\<in>set m4. pattern_message n m"
    using check_weak_ok by blast
  obtain m7 where m7: "check_ranuki l n = Some m7" "\<forall>m\<in>set m7. pattern_message n m"
    using check_ranuki_ok by blast
  obtain m9 where m9: "check_ai l n = Some m9" "\<forall>m\<in>set m9. pattern_message n m"
    using check_ai_ok by blast
  define mid where "mid = m3 @ m4 @ check_doubled_joshi2 l n @ check_successive2 l n @ m7
    @ check_kanji l n @ m9"
  have "lint_line2 l k = Some (m1 @ check_sentence_length2 l n @ mid @ check_colon l n)"
    unfolding lint_line2_def Let_def n_def[symmetric] mid_def
    by (simp add: m1(1) m3(1) m4(1) m7(1) m9(1))
  moreover have "\<forall>m\<in>set (m1 @ mid). pattern_message n m"
    unfolding mid_def using m1(2) m3(2) m4(2) m7(2) m9(2)
      check_kanji_ok[of l n] check_doubled_joshi2_ok[of l n] check_successive2_ok[of l n] by auto
  ultimately show ?thesis unfolding n_def by blast
qed

lemma line_callback1: "line_callback check_sentence_length lint_line"
  unfolding line_callback_def
  using lint_line_shape check_sentence_length_msgs by (metis check_sentence_length_def)

lemma line_callback2: "line_callback check_sentence_length2 lint_line2"
  unfolding line_callback_def
  using lint_line2_shape check_sentence_length2_msgs by metis

lemma ids_distinct: "ascii ''sentence-length'' \<noteq> ascii ''no-ai-colon-continuation''"
  by (simp add: ascii_def)

lemma line_callback_filters:
  assumes "line_callback sl f"
  shows "\<exists>ms. f l k = Some ms
     \<and> (\<forall>m\<in>set ms. line m = int k + 1 \<and> (severity m = 1 \<or> severity m = 2))
     \<and> filter (\<lambda>m. ruleId m = ascii ''sentence-length'') ms = sl l (int k + 1)
     \<and> filter (\<lambda>m. ruleId m = ascii ''no-ai-colon-continuation'') ms = check_colon l (int k + 1)"
proof -
  from assms obtain pre mid where
    f: "f l k = Some (pre @ sl l (int k + 1) @ mid @ check_colon l (int k + 1))" and
    pm: "\<forall>m\<in>set (pre @ mid). pattern_message (int k + 1) m" and
    s: "\<forall>m\<in>set (sl l (int k + 1)).
              ruleId m = ascii ''sentence-length'' \<and> severity m = 2 \<and> line m = int k + 1"
    unfolding line_callback_def by blast
  note c = check_colon_msgs[of l "int k + 1"]
  have p1: "filter (\<lambda>m. ruleId m = ascii ''sentence-length'') pre = []"
    "filter (\<lambda>m. ruleId m = ascii ''sentence-length'') mid = []"
    "filter (\<lambda>m. ruleId m = ascii ''no-ai-colon-continuation'') pre = []"
    "filter (\<lambda>m. ruleId m = ascii ''no-ai-colon-continuation'') mid = []"
    using pm by (auto simp: filter_empty_conv pattern_message_def)
  have p2: "filter (\<lambda>m. ruleId m = ascii ''sentence-length'') (check_colon l (int k + 1)) = []"
    "filter (\<lambda>m. ruleId m = ascii ''no-ai-colon-continuation'') (sl l (int k + 1)) = []"
    using c s ids_distinct by (auto simp: filter_empty_conv)
  have p3: "filter (\<lambda>m. ruleId m = ascii ''sentence-length'') (sl l (int k + 1)) = sl l (int k + 1)"
    "filter (\<lambda>m. ruleId m = ascii ''no-ai-colon-continuation'') (check_colon l (int k + 1))
       = check_colon l (int k + 1)"
    using c s by (auto simp: filter_id_conv)
  have "\<forall>m\<in>set (pre @ sl l (int k + 1) @ mid @ check_colon l (int k + 1)).
          line m = int k + 1 \<and> (severity m = 1 \<or> severity m = 2)"
    using pm s c by (auto simp: pattern_message_def)
  with f p1 p2 p3 show ?thesis by simp
qed

lemma lines_forEach_total:
  assumes "\<And>l k. \<exists>ms. f l k = Some ms"
  shows "\<exists>mss. length mss = length ls \<and> (\<forall>j<length ls. f (ls ! j) (k + j) = Some (mss ! j))
            \<and> lines_forEach f ls k = Some (concat mss)"
proof (induction ls arbitrary: k)
  case Nil
  then show ?case by simp
next
  case (Cons l ls)
  from assms obtain a where a: "f l k = Some a" by blast
  from Cons.IH[of "Suc k"] obtain mss where
    mss: "length mss = length ls" "\<forall>j<length ls. f (ls ! j) (Suc k + j) = Some (mss ! j)"
      "lines_forEach f ls (Suc k) = Some (concat mss)" by blast
  have "\<forall>j<length (l # ls). f ((l # ls) ! j) (k + j) = Some ((a # mss) ! j)"
  proof (intro allI impI)
    fix j assume "j < length (l # ls)"
    then show "f ((l # ls) ! j) (k + j) = Some ((a # mss) ! j)"
      using a mss(2) by (cases j) auto
  qed
  moreover have "lines_forEach f (l # ls) k = Some (concat (a # mss))"
    using a mss(3) by simp
  moreover have "length (a # mss) = length (l # ls)" using mss(1) by simp
  ultimately show ?case by blast
qed

lemma filter_concat_nth:
  assumes "j < length xss"
    and "\<And>i. i < length xss \<Longrightarrow> i \<noteq> j \<Longrightarrow> \<forall>x\<in>set (xss ! i). \<not> Q x"
  shows "filter Q (concat xss) = filter Q (xss ! j)"
  using assms
proof (induction xss arbitrary: j)
  case Nil
  then show ?case by simp
next
  case (Cons xs xss)
  show ?case
  proof (cases j)
    case 0
    have "\<forall>ys\<in>set xss. \<forall>x\<in>set ys. \<not> Q x"
    proof
      fix ys assume "ys \<in> set xss"
      then obtain i where i: "i < length xss" "xss ! i = ys" by (auto simp: in_set_conv_nth)
      from Cons.prems(2)[of "Suc i"] i 0 show "\<forall>x\<in>set ys. \<not> Q x" by auto
    qed
    then have "filter Q (concat xss) = []" by (auto simp: filter_empty_conv)
    with 0 show ?thesis by simp
  next
    case (Suc j')
    from Cons.prems(2)[of 0] Suc have "filter Q xs = []" by (auto simp: filter_empty_conv)
    moreover have "filter Q (concat xss) = filter Q (xss ! j')"
    proof (rule Cons.IH)
      show "j' < length xss" using Cons.prems(1) Suc by simp
    next
      fix i assume "i < length xss" "i \<noteq> j'"
      with Cons.prems(2)[of "Suc i"] Suc show "\<forall>x\<in>set (xss ! i). \<not> Q x" by auto
    qed
    ultimately show ?thesis using Suc by simp
  qed
qed

text \<open>The messages of the whole text, for either engine.\<close>

lemma engine_messages:
  assumes cb: "line_callback sl f"
  shows "\<exists>msgs. lines_forEach f ls 0 = Some msgs
     \<and> (\<forall>m\<in>set msgs. severity m = 1 \<or> severity m = 2)
     \<and> (\<forall>j<length ls.
          filter (\<lambda>m. ruleId m = ascii ''sentence-length'' \<and> line m = int j + 1) msgs
            = sl (ls ! j) (int j + 1)
          \<and> filter (\<lambda>m. ruleId m = ascii ''no-ai-colon-continuation'' \<and> line m = int j + 1) msgs
            = check_colon (ls ! j) (int j + 1))"
proof -
  have tot: "\<And>l k. \<exists>ms. f l k = Some ms" using line_callback_filters[OF cb] by blast
  from lines_forEach_total[of f ls 0, OF tot] obtain mss where
    len: "length mss = length ls" and
    nth: "\<forall>j<length ls. f (ls ! j) j = Some (mss ! j)" and
    res: "lines_forEach f ls 0 = Some (concat mss)" by auto
  have props: "(\<forall>m\<in>set (mss ! j). line m = int j + 1 \<and> (severity m = 1 \<or> severity m = 2))
      \<and> filter (\<lambda>m. ruleId m = ascii ''sentence-length'') (mss ! j) = sl (ls ! j) (int j + 1)
      \<and> filter (\<lambda>m. ruleId m = ascii ''no-ai-colon-continuation'') (mss ! j)
          = check_colon (ls ! j) (int j + 1)" if "j < length ls" for j
    using line_callback_filters[OF cb, of "ls ! j" j] nth that by auto
  have sev: "\<forall>m\<in>set (concat mss). severity m = 1 \<or> severity m = 2"
  proof
    fix m assume "m \<in> set (concat mss)"
    then obtain ms where "ms \<in> set mss" "m \<in> set ms" by auto
    then obtain j where "j < length mss" "m \<in> set (mss ! j)"
      by (metis in_set_conv_nth)
    with props[of j] len show "severity m = 1 \<or> severity m = 2" by auto
  qed
  have pick: "filter (\<lambda>m. ruleId m = rid \<and> line m = int j + 1) (concat mss)
      = filter (\<lambda>m. ruleId m = rid) (mss ! j)" if j: "j < length ls" for j rid
  proof -
    have "filter (\<lambda>m. ruleId m = rid \<and> line m = int j + 1) (concat mss)
        = filter (\<lambda>m. ruleId m = rid \<and> line m = int j + 1) (mss ! j)"
    proof (rule filter_concat_nth)
      show "j < length mss" using j len by simp
    next
      fix i assume "i < length mss" "i \<noteq> j"
      with props[of i] len
      show "\<forall>x\<in>set (mss ! i). \<not> (ruleId x = rid \<and> line x = int j + 1)" by auto
    qed
    also have "\<dots> = filter (\<lambda>m. ruleId m = rid) (mss ! j)"
      using props[OF j] by (intro filter_cong) auto
    finally show ?thesis .
  qed
  show ?thesis using res sev pick props by auto
qed

lemma count_severities:
  assumes "\<forall>m\<in>set msgs. severity m = 1 \<or> severity m = (2::int)"
  shows "length (filter (\<lambda>m. severity m = 2) msgs) + length (filter (\<lambda>m. severity m = 1) msgs)
         = length msgs"
  using assms by (induction msgs) auto

lemma indexOf_from_single:
  "indexOf_from [c] l j = (if c \<in> set l then int (j + first_index c l) else - 1)"
  by (induction l arbitrary: j) (auto simp: first_index_def)

lemma indexOf_single:
  "indexOf l [c] = (if c \<in> set l then int (first_index c l) else - 1)"
  by (simp add: indexOf_def indexOf_from_single)

lemma check_colon_spec:
  assumes "0x3A \<in> set l \<or> 0xFF1A \<in> set l"
  shows "check_colon l n =
    [push (ascii ''no-ai-colon-continuation'') colonMessage n (int (later_colon l) + 1) 1]"
  using assms
  by (auto simp: check_colon_def includes_str_def indexOf_single later_colon_def Let_def
      simp flip: of_nat_max)

lemma engine_result:
  assumes cb: "line_callback sl f"
  shows "\<exists>r. map_option result_of (lines_forEach f ls 0) = Some r
     \<and> (\<forall>j<length ls.
          filter (\<lambda>m. ruleId m = ascii ''sentence-length'' \<and> line m = int j + 1) (messages r)
            = sl (ls ! j) (int j + 1)
          \<and> filter (\<lambda>m. ruleId m = ascii ''no-ai-colon-continuation'' \<and> line m = int j + 1)
              (messages r)
            = check_colon (ls ! j) (int j + 1))"
proof -
  from engine_messages[OF cb, of ls] obtain msgs where
    "lines_forEach f ls 0 = Some msgs"
    "\<forall>j<length ls.
          filter (\<lambda>m. ruleId m = ascii ''sentence-length'' \<and> line m = int j + 1) msgs
            = sl (ls ! j) (int j + 1)
          \<and> filter (\<lambda>m. ruleId m = ascii ''no-ai-colon-continuation'' \<and> line m = int j + 1) msgs
            = check_colon (ls ! j) (int j + 1)" by blast
  then show ?thesis by (simp add: result_of_def)
qed

lemma split_nonempty: "split P l \<noteq> []"
  by (induction l) (auto split: list.splits)

lemma split_no_delimiter: "\<forall>c\<in>set l. \<not> P c \<Longrightarrow> split P l = [l]"
  by (induction l) auto

lemma segment_start_simps:
  "segment_start segs 0 = 0"
  "segment_start (s # segs) (Suc k) = length s + 1 + segment_start segs k"
  by (simp_all add: segment_start_def)

text \<open>Segment \<open>k\<close> of a split line lies in the line at its running offset.\<close>

lemma split_segment_at:
  "k < length (split P l)
   \<Longrightarrow> take (length (split P l ! k)) (drop (segment_start (split P l) k) l) = split P l ! k"
proof (induction l arbitrary: k)
  case Nil
  then show ?case by (simp add: segment_start_def)
next
  case (Cons c cs)
  obtain seg segs where sp: "split P cs = seg # segs"
    using split_nonempty[of P cs] by (cases "split P cs") auto
  show ?case
  proof (cases "P c")
    case True
    show ?thesis
    proof (cases k)
      case 0
      with True show ?thesis by (simp add: segment_start_simps)
    next
      case (Suc k')
      with Cons.prems True have "k' < length (split P cs)" by simp
      from Cons.IH[OF this] True Suc show ?thesis by (simp add: segment_start_simps)
    qed
  next
    case False
    show ?thesis
    proof (cases k)
      case 0
      from Cons.IH[of 0] sp have "take (length seg) cs = seg" by (simp add: segment_start_simps)
      with False sp 0 show ?thesis by (simp add: segment_start_simps)
    next
      case (Suc k')
      with Cons.prems False sp have "Suc k' < length (split P cs)" by simp
      from Cons.IH[OF this] sp
      have "take (length (segs ! k')) (drop (length seg + 1 + segment_start segs k') cs)
            = segs ! k'" by (simp add: segment_start_simps)
      with False sp Suc show ?thesis by (simp add: segment_start_simps)
    qed
  qed
qed

lemma sentences_forEach_spec:
  "sentences_forEach ss c n =
     map (\<lambda>k. push (ascii ''sentence-length'') (sentenceLengthMessage (length (ss ! k)))
                 n (c + int (segment_start ss k)) 2)
       (filter (\<lambda>k. length (ss ! k) > 100) [0..<length ss])"
proof (induction ss arbitrary: c)
  case Nil
  then show ?case by simp
next
  case (Cons s ss)
  have upt: "[0..<length (s # ss)] = 0 # map Suc [0..<length ss]"
    by (simp add: upt_conv_Cons map_Suc_upt del: upt_Suc)
  show ?case
    unfolding upt
    by (simp add: Cons.IH filter_map comp_def segment_start_simps add.assoc add.commute
        add.left_commute)
qed

lemma check_sentence_length_spec:
  "check_sentence_length l n = over_length_diagnostics l n"
  by (simp add: check_sentence_length_def over_length_diagnostics_def sentences_forEach_spec
      Let_def add.commute push_def sentenceLengthMessage_def)

lemma check_sentence_length2_spec:
  "check_sentence_length2 l n = whole_line_diagnostics l n"
  by (simp add: check_sentence_length2_def whole_line_diagnostics_def push_def
      sentenceLengthMessage_def)

lemma decimal_101: "decimal 101 = [0x31, 0x30, 0x31]"
  by (simp add: decimal.simps)

lemma single_line_result:
  assumes cb: "line_callback sl f"
  shows "\<exists>r. map_option result_of (lines_forEach f [l] 0) = Some r
     \<and> filter (\<lambda>m. ruleId m = ascii ''sentence-length'') (messages r) = sl l 1"
proof -
  from line_callback_filters[OF cb, of l 0] obtain ms where
    "f l 0 = Some ms" "filter (\<lambda>m. ruleId m = ascii ''sentence-length'') ms = sl l 1"
    by auto
  then show ?thesis by (simp add: result_of_def)
qed

subsection \<open>Substrings\<close>

lemma clamp_index_le: "clamp_index s a \<le> length s"
  by (simp add: clamp_index_def)

lemma clamp_index_mono: "a \<le> b \<Longrightarrow> clamp_index s a \<le> clamp_index s b"
  by (simp add: clamp_index_def)

lemma clamp_index_in_range: "0 \<le> a \<Longrightarrow> a \<le> int (length s) \<Longrightarrow> clamp_index s a = nat a"
  by (simp add: clamp_index_def)

lemma substring_ordered:
  "clamp_index s a \<le> clamp_index s b
   \<Longrightarrow> substring s a b = take (clamp_index s b - clamp_index s a) (drop (clamp_index s a) s)"
  by (simp add: substring_def Let_def min_def max_def)

lemma take_drop_append:
  assumes "a \<le> b" "b \<le> c"
  shows "take (b - a) (drop a s) @ take (c - b) (drop b s) = take (c - a) (drop a s)"
proof -
  have "take (c - a) (drop a s) = take ((b - a) + (c - b)) (drop a s)" using assms by simp
  also have "\<dots> = take (b - a) (drop a s) @ take (c - b) (drop (b - a) (drop a s))"
    by (rule take_add)
  also have "drop (b - a) (drop a s) = drop b s" using assms by simp
  finally show ?thesis by simp
qed

lemma substring_three:
  assumes "clamp_index s w \<le> clamp_index s x" "clamp_index s x \<le> clamp_index s y"
    "clamp_index s y \<le> clamp_index s z"
  shows "substring s w x @ substring s x y @ substring s y z = substring s w z"
proof -
  have wz: "clamp_index s w \<le> clamp_index s z" and xz: "clamp_index s x \<le> clamp_index s z"
    using assms by linarith+
  have "substring s x y @ substring s y z = substring s x z"
    unfolding substring_ordered[OF assms(2)] substring_ordered[OF assms(3)]
      substring_ordered[OF xz]
    by (rule take_drop_append[OF assms(2,3)])
  moreover have "substring s w x @ substring s x z = substring s w z"
    unfolding substring_ordered[OF assms(1)] substring_ordered[OF xz] substring_ordered[OF wz]
    by (rule take_drop_append[OF assms(1) xz])
  ultimately show ?thesis by simp
qed

subsection \<open>The length of the word at a position\<close>

lemma wordLength_ge1: "1 \<le> wordLength rest"
proof (cases "search wordPattern rest 0")
  case None
  then show ?thesis by (simp add: wordLength_def)
next
  case (Some x)
  obtain idx e cap where x: "x = (idx, e, cap)" by (cases x) auto
  from search_bounds[OF Some[unfolded x]]
  have "idx + 1 \<le> e" "e \<le> length rest" by (simp_all add: wordPattern_def)
  with Some x show ?thesis by (simp add: wordLength_def)
qed

lemma wordLength_le: "rest \<noteq> [] \<Longrightarrow> wordLength rest \<le> int (length rest)"
proof (cases "search wordPattern rest 0")
  case None
  assume "rest \<noteq> []"
  then have "1 \<le> length rest" by (cases rest) auto
  with None show ?thesis by (simp add: wordLength_def)
next
  case (Some x)
  obtain idx e cap where x: "x = (idx, e, cap)" by (cases x) auto
  from search_bounds[OF Some[unfolded x]]
  have "idx + 1 \<le> e" "e \<le> length rest" by (simp_all add: wordPattern_def)
  with Some x show ?thesis by (simp add: wordLength_def)
qed

lemma search_aux_Bol: "0 < j \<Longrightarrow> search_aux (Bol # re) s n j = None"
  by (induction n arbitrary: j) auto

lemma search_wordPattern:
  "search wordPattern s 0 =
     (case match_items wordPattern s 0 None None of
        None \<Rightarrow> None | Some (e, cap) \<Rightarrow> Some (0, e, cap))"
  by (auto simp: search_def wordPattern_def search_aux_Bol split: option.splits)

text \<open>A character at which the word pattern stops.\<close>

lemma wordLength_boundary:
  assumes "\<not> in_class (CC True boundary_ranges) c"
  shows "wordLength (c # cs) = 1"
proof -
  have "match_items wordPattern (c # cs) 0 None None = None"
    using assms by (simp add: wordPattern_def Let_def)
  then show ?thesis unfolding wordLength_def search_wordPattern by simp
qed

lemma wordLength_empty: "wordLength [] = 1"
  unfolding wordLength_def search_wordPattern by (simp add: wordPattern_def Let_def)


subsection \<open>The context of an error\<close>

lemma wordLength_fits:
  assumes "es < length lineText"
  shows "int es + wordLength (drop es lineText) \<le> int (length lineText)"
proof -
  from assms have "drop es lineText \<noteq> []" by simp
  from wordLength_le[OF this] assms show ?thesis by simp
qed

lemma getErrorContext_in_range:
  assumes "1 \<le> ln" "ln \<le> int (length (lines_of text))"
  shows "getErrorContext text ln col cl =
     \<lparr>before = (if beforeStart col cl > 0 then ellipsis else [])
                 @ substring (lines_of text ! nat (ln - 1)) (beforeStart col cl) (errorStart col),
      error = substring (lines_of text ! nat (ln - 1)) (errorStart col)
                (errorEnd (lines_of text ! nat (ln - 1)) col),
      after = substring (lines_of text ! nat (ln - 1))
                (errorEnd (lines_of text ! nat (ln - 1)) col)
                (afterEnd (lines_of text ! nat (ln - 1)) col cl)
              @ (if afterEnd (lines_of text ! nat (ln - 1)) col cl
                    < int (length (lines_of text ! nat (ln - 1)))
                 then ellipsis else [])\<rparr>"
  using assms by (simp add: getErrorContext_def Let_def)

lemma context_indices:
  assumes "0 \<le> cl"
  shows "clamp_index s (beforeStart col cl) \<le> clamp_index s (errorStart col)"
    "clamp_index s (errorStart col) \<le> clamp_index s (errorEnd s col)"
    "clamp_index s (errorEnd s col) \<le> clamp_index s (afterEnd s col cl)"
proof -
  have w: "1 \<le> errorLength s col" by (simp add: errorLength_def wordLength_ge1)
  show "clamp_index s (beforeStart col cl) \<le> clamp_index s (errorStart col)"
    using assms by (intro clamp_index_mono) (simp add: beforeStart_def errorStart_def)
  show "clamp_index s (errorStart col) \<le> clamp_index s (errorEnd s col)"
    using w by (intro clamp_index_mono) (simp add: errorEnd_def)
  show "clamp_index s (errorEnd s col) \<le> clamp_index s (afterEnd s col cl)"
    using w assms by (simp add: clamp_index_def afterEnd_def errorEnd_def errorStart_def)
qed

lemma contextExample_lines: "lines_of contextExample = [contextExample]"
  by (simp add: lines_of_def contextExample_def ascii_def)

lemma contextExample_word: "errorLength contextExample 4 = 2"
proof -
  have "substring_from contextExample (errorStart 4) = ascii ''cd, ef''"
    by (simp add: errorStart_def substring_from_def clamp_index_def contextExample_def ascii_def)
  moreover have "wordLength (ascii ''cd, ef'') = 2"
    unfolding wordLength_def search_wordPattern
    by (simp del: match_items.simps
        add: wordPattern_def boundary_ranges_def ascii_def eval_regex)
  ultimately show ?thesis by (simp add: errorLength_def)
qed

lemma contextExample_context:
  "getErrorContext contextExample 1 4 2
     = \<lparr>before = ascii ''...b '', error = ascii ''cd'', after = ascii '', ...''\<rparr>"
proof -
  have i: "errorStart 4 = 3" "beforeStart 4 2 = 1" "errorEnd contextExample 4 = 5"
    "afterEnd contextExample 4 2 = 7" "length contextExample = 9"
    by (simp_all add: errorStart_def beforeStart_def errorEnd_def afterEnd_def
        contextExample_word) (simp_all add: contextExample_def ascii_def)
  have s: "substring contextExample 1 3 = ascii ''b ''"
    "substring contextExample 3 5 = ascii ''cd''"
    "substring contextExample 5 7 = ascii '', ''"
    by (simp_all add: substring_def clamp_index_def contextExample_def ascii_def)
  show ?thesis
    by (simp add: getErrorContext_def contextExample_lines i s ellipsis_def ascii_def)
qed


subsection \<open>Scenario B, evaluated\<close>

lemma scenarioB_messages:
  "lines_forEach lint_line (lines_of scenarioB) 0 =
     Some [push (ascii ''no-doubled-joshi'') (doubleJoshiMessage [0x306F]) 1 2 1,
           push (ascii ''ja-no-successive-word'') (successiveMessage [0x5F7C, 0x306F]) 1 1 2]"
  by (simp del: match_items.simps add: scenarioB_def eval_engine eval_rules eval_regex)

subsection \<open>The span of the word at a column of the line\<close>

lemma line_in_text:
  assumes "k < length (lines_of text)"
  shows "take (length (lines_of text ! k)) (drop (segment_start (lines_of text) k) text)
         = lines_of text ! k"
  using assms unfolding lines_of_def by (rule split_segment_at)

lemma charIndex_sum:
  "(\<Sum>l\<leftarrow>xs. int (length l) + 1) = int (sum_list (map (\<lambda>s. length s + 1) xs))"
  by (induction xs) auto

lemma take_drop_take:
  assumes "m + n \<le> k"
  shows "take n (drop m (take k xs)) = take n (drop m xs)"
proof -
  have "drop m (take k xs) = take (k - m) (drop m xs)" by (simp add: drop_take)
  moreover have "min n (k - m) = n" using assms by simp
  ultimately show ?thesis by simp
qed

lemma span_in_line:
  assumes col: "1 \<le> col" "col \<le> int (length s)"
  shows "errorStart col = col - 1"
    and "substring_from s (col - 1) = drop (nat (col - 1)) s"
    and "col - 1 + errorLength s col \<le> int (length s)"
    and "substring s (errorStart col) (errorEnd s col)
         = take (nat (errorLength s col)) (drop (nat (col - 1)) s)"
proof -
  show es: "errorStart col = col - 1" using col by (simp add: errorStart_def)
  show sf: "substring_from s (col - 1) = drop (nat (col - 1)) s"
    using col by (simp add: substring_from_def clamp_index_in_range)
  have lt: "nat (col - 1) < length s" using col by linarith
  from wordLength_fits[OF lt] col
  show fit: "col - 1 + errorLength s col \<le> int (length s)"
    by (simp add: errorLength_def es sf)
  have w: "1 \<le> errorLength s col" by (simp add: errorLength_def wordLength_ge1)
  have c1: "clamp_index s (errorStart col) = nat (col - 1)"
    using col by (simp add: es clamp_index_in_range)
  have c2: "clamp_index s (errorEnd s col) = nat (col - 1 + errorLength s col)"
    using col w fit by (simp add: errorEnd_def es clamp_index_in_range)
  have "nat (col - 1 + errorLength s col) - nat (col - 1) = nat (errorLength s col)"
    using col w by linarith
  then show "substring s (errorStart col) (errorEnd s col)
         = take (nat (errorLength s col)) (drop (nat (col - 1)) s)"
    using w col by (simp add: substring_ordered c1 c2)
qed

lemma selection_in_line:
  assumes ln: "1 \<le> ln" "ln \<le> int (length (lines_of text))"
    and col: "1 \<le> col" "col \<le> int (length (lines_of text ! nat (ln - 1)))"
  shows "snd (snd (selection text ln col))
         = take (nat (errorLength (lines_of text ! nat (ln - 1)) col))
             (drop (nat (col - 1)) (lines_of text ! nat (ln - 1)))"
proof -
  define k where "k = nat (ln - 1)"
  define s where "s = lines_of text ! k"
  define off where "off = segment_start (lines_of text) k"
  define w where "w = errorLength s col"
  have k: "k < length (lines_of text)" using ln by (simp add: k_def)
  have inl: "take (length s) (drop off text) = s"
    unfolding s_def off_def by (rule line_in_text[OF k])
  have "length (take (length s) (drop off text)) = length s" by (simp only: inl)
  then have room: "length s \<le> length text - off" by simp
  have pos: "0 < length s" using col unfolding s_def k_def by linarith
  with room have offlt: "off + length s \<le> length text" by linarith
  note sp = span_in_line[OF col(1), of s, OF col(2)[folded k_def s_def]]
  have w1: "1 \<le> w" by (simp add: w_def errorLength_def wordLength_ge1)
  have fit: "col - 1 + w \<le> int (length s)" using sp(3) by (simp add: w_def)
  have ci: "(\<Sum>l\<leftarrow>take k (lines_of text). int (length l) + 1) = int off"
    by (simp add: charIndex_sum off_def segment_start_def)
  have sel: "selection text ln col
      = (int off + (col - 1), w, substring text (int off + (col - 1)) (int off + (col - 1) + w))"
    using ln by (simp add: selection_def Let_def k_def[symmetric] ci s_def[symmetric] w_def
        errorLength_def sp(1))
  have cs: "col \<le> int (length s)" using col(2) by (simp add: s_def k_def)
  have c1: "clamp_index text (int off + (col - 1)) = off + nat (col - 1)"
  proof -
    have "0 \<le> int off + (col - 1)" "int off + (col - 1) \<le> int (length text)"
      using col(1) cs offlt by linarith+
    from clamp_index_in_range[OF this] show ?thesis
      using col(1) by (simp add: nat_add_distrib)
  qed
  have c2: "clamp_index text (int off + (col - 1) + w) = off + nat (col - 1) + nat w"
  proof -
    have "0 \<le> int off + (col - 1) + w" "int off + (col - 1) + w \<le> int (length text)"
      using col(1) fit w1 offlt by linarith+
    from clamp_index_in_range[OF this] show ?thesis
      using col(1) w1 by (simp add: nat_add_distrib)
  qed
  have "substring text (int off + (col - 1)) (int off + (col - 1) + w)
        = take (nat w) (drop (off + nat (col - 1)) text)"
    by (simp add: substring_ordered c1 c2)
  also have "\<dots> = take (nat w) (drop (nat (col - 1)) (drop off text))"
    by (simp add: add.commute)
  also have "\<dots> = take (nat w) (drop (nat (col - 1)) (take (length s) (drop off text)))"
    using fit col(1) w1 by (intro take_drop_take[symmetric]) linarith
  finally show ?thesis unfolding sel inl by (simp add: w_def s_def k_def)
qed

subsection \<open>Splitting and joining\<close>

lemma interleave_Cons_head:
  "interleave ((c # seg) # segs) ds = c # interleave (seg # segs) ds"
  by (cases segs; cases ds) auto

lemma split_interleave:
  "\<exists>ds. length ds + 1 = length (split P s) \<and> (\<forall>d\<in>set ds. P d) \<and> interleave (split P s) ds = s"
proof (induction s)
  case Nil
  then show ?case by simp
next
  case (Cons c cs)
  then obtain ds where ds: "length ds + 1 = length (split P cs)" "\<forall>d\<in>set ds. P d"
    "interleave (split P cs) ds = cs" by blast
  obtain seg segs where sp: "split P cs = seg # segs"
    using split_nonempty[of P cs] by (cases "split P cs") auto
  show ?case
  proof (cases "P c")
    case True
    have "length (c # ds) + 1 = length (split P (c # cs))" using True ds(1) by simp
    moreover have "\<forall>d\<in>set (c # ds). P d" using True ds(2) by simp
    moreover have "interleave (split P (c # cs)) (c # ds) = c # cs"
      using True ds(3) sp by simp
    ultimately show ?thesis by blast
  next
    case False
    have "length ds + 1 = length (split P (c # cs))" using False ds(1) sp by simp
    moreover have "interleave (split P (c # cs)) ds = c # cs"
      using False ds(3) sp by (simp add: interleave_Cons_head)
    ultimately show ?thesis using ds(2) by blast
  qed
qed

lemma split_pieces_free: "\<forall>seg\<in>set (split P s). \<forall>c\<in>set seg. \<not> P c"
proof (induction s)
  case Nil
  then show ?case by simp
next
  case (Cons c cs)
  obtain seg segs where sp: "split P cs = seg # segs"
    using split_nonempty[of P cs] by (cases "split P cs") auto
  with Cons show ?case by (cases "P c") auto
qed

lemma split_append_delimiter:
  "\<forall>c\<in>set xs. \<not> P c \<Longrightarrow> P d \<Longrightarrow> split P (xs @ d # ys) = xs # split P ys"
proof (induction xs)
  case Nil
  then show ?case by simp
next
  case (Cons x xs)
  then show ?case by simp
qed

text \<open>The lines of a text: none holds a line break, and joined by line breaks they are
  the text.\<close>

lemma lines_of_spec:
  "lines_of text \<noteq> [] \<and> (\<forall>l\<in>set (lines_of text). 0x0A \<notin> set l)
   \<and> interleave (lines_of text) (replicate (length (lines_of text) - 1) 0x0A) = text"
proof -
  from split_interleave[of "\<lambda>c. c = 0x0A" "text"] obtain ds where
    ds: "length ds + 1 = length (lines_of text)" "\<forall>d\<in>set ds. d = 0x0A"
      "interleave (lines_of text) ds = text" unfolding lines_of_def by blast
  from ds(2) have "ds = replicate (length ds) 0x0A"
    by (metis replicate_length_same)
  with ds(1) have "ds = replicate (length (lines_of text) - 1) 0x0A"
    by (metis add_diff_cancel_right')
  with ds(3) have "interleave (lines_of text) (replicate (length (lines_of text) - 1) 0x0A) = text"
    by simp
  moreover have "lines_of text \<noteq> []" by (simp add: lines_of_def split_nonempty)
  moreover have "\<forall>l\<in>set (lines_of text). 0x0A \<notin> set l"
    using split_pieces_free[of "\<lambda>c. c = 0x0A" "text"] unfolding lines_of_def by blast
  ultimately show ?thesis by blast
qed

lemma sentence_delimiter_iff: "sentence_delimiter c \<longleftrightarrow> c = 0x3002 \<or> c = 0xFF0E"
  by (auto simp: sentence_delimiter_def)

text \<open>The segments of a line: none holds one of the two full stops, and with full stops
  between them they are the line.\<close>

lemma segments_spec:
  "(\<forall>seg\<in>set (split sentence_delimiter l). 0x3002 \<notin> set seg \<and> 0xFF0E \<notin> set seg)
   \<and> (\<exists>ds. length ds + 1 = length (split sentence_delimiter l)
          \<and> set ds \<subseteq> {0x3002, 0xFF0E}
          \<and> interleave (split sentence_delimiter l) ds = l)"
proof -
  from split_interleave[of sentence_delimiter l] obtain ds where
    ds: "length ds + 1 = length (split sentence_delimiter l)" "\<forall>d\<in>set ds. sentence_delimiter d"
      "interleave (split sentence_delimiter l) ds = l" by blast
  from ds(2) have "set ds \<subseteq> {0x3002, 0xFF0E}" by (auto simp: sentence_delimiter_iff)
  moreover have "\<forall>seg\<in>set (split sentence_delimiter l). 0x3002 \<notin> set seg \<and> 0xFF0E \<notin> set seg"
    using split_pieces_free[of sentence_delimiter l] by (auto simp: sentence_delimiter_iff)
  ultimately show ?thesis using ds(1,3) by blast
qed


subsection \<open>The colon example, evaluated\<close>

lemma colonExample_lines: "lines_of colonExample = [ascii ''x:'', scenarioE]"
  by (simp add: lines_of_def colonExample_def scenarioE_def ascii_def)

lemma colonExample_result:
  "generateMockLintResult colonExample =
     Some \<lparr>messages =
             [\<lparr>type = ascii ''lint'', ruleId = ascii ''no-ai-colon-continuation'',
           message = [0x30B3, 0x30ED, 0x30F3, 0x306E, 0x4F7F, 0x7528, 0x306F, 0x907F, 0x3051,
                      0x3066, 0x304F, 0x3060, 0x3055, 0x3044],
           line = 1, column = 2, severity = 1\<rparr>,
              \<lparr>type = ascii ''lint'', ruleId = ascii ''no-ai-colon-continuation'',
           message = [0x30B3, 0x30ED, 0x30F3, 0x306E, 0x4F7F, 0x7528, 0x306F, 0x907F, 0x3051,
                      0x3066, 0x304F, 0x3060, 0x3055, 0x3044],
           line = 2, column = 11, severity = 1\<rparr>],
           errorCount = 0, warningCount = 2\<rparr>"
  "generateMockLintResult2 colonExample =
     Some \<lparr>messages =
             [\<lparr>type = ascii ''lint'', ruleId = ascii ''no-ai-colon-continuation'',
           message = [0x30B3, 0x30ED, 0x30F3, 0x306E, 0x4F7F, 0x7528, 0x306F, 0x907F, 0x3051,
                      0x3066, 0x304F, 0x3060, 0x3055, 0x3044],
           line = 1, column = 2, severity = 1\<rparr>,
              \<lparr>type = ascii ''lint'', ruleId = ascii ''no-ai-colon-continuation'',
           message = [0x30B3, 0x30ED, 0x30F3, 0x306E, 0x4F7F, 0x7528, 0x306F, 0x907F, 0x3051,
                      0x3066, 0x304F, 0x3060, 0x3055, 0x3044],
           line = 2, column = 11, severity = 1\<rparr>],
           errorCount = 0, warningCount = 2\<rparr>"
  by (simp_all del: match_items.simps
      add: colonExample_def scenarioE_def eval_engine eval_rules eval_regex push_def
        colonMessage_def ascii_def)

lemma decimal_102: "decimal 102 = [0x31, 0x30, 0x32]"
  by (simp add: decimal.simps)

lemma decimal_121: "decimal 121 = [0x31, 0x32, 0x31]"
  by (simp add: decimal.simps)

lemma single_line_diagnostics:
  assumes "length l = 101" "\<forall>c\<in>set l. \<not> sentence_delimiter c"
  shows "over_length_diagnostics l 1
    = [\<lparr>type = ascii ''lint'', ruleId = ascii ''sentence-length'',
          message = [0x6587, 0x304C, 0x9577, 0x3059, 0x304E, 0x307E, 0x3059, 0x3002, 0x31, 0x30,
                     0x30, 0x6587, 0x5B57, 0x4EE5, 0x5185, 0x306B, 0x3057, 0x3066, 0x304F,
                     0x3060, 0x3055, 0x3044, 0x3002, 0x73FE, 0x5728, 0x306E, 0x6587, 0x5B57,
                     0x6570, 0x3A, 0x20] @ [0x31, 0x30, 0x31],
          line = 1, column = 1, severity = 2\<rparr>]"
    and "whole_line_diagnostics l 1
    = [\<lparr>type = ascii ''lint'', ruleId = ascii ''sentence-length'',
          message = [0x6587, 0x304C, 0x9577, 0x3059, 0x304E, 0x307E, 0x3059, 0x3002, 0x31, 0x30,
                     0x30, 0x6587, 0x5B57, 0x4EE5, 0x5185, 0x306B, 0x3057, 0x3066, 0x304F,
                     0x3060, 0x3055, 0x3044, 0x3002, 0x73FE, 0x5728, 0x306E, 0x6587, 0x5B57,
                     0x6570, 0x3A, 0x20] @ [0x31, 0x30, 0x31],
          line = 1, column = 1, severity = 2\<rparr>]"
  using assms
  by (simp_all add: over_length_diagnostics_def whole_line_diagnostics_def split_no_delimiter
      segment_start_simps decimal_101)

subsection \<open>The sentence examples, evaluated\<close>

lemma sentenceLine_free: "0x0A \<notin> set sentenceLine"
  by (simp add: sentenceLine_def)

lemma sentenceExample_lines: "lines_of sentenceExample = [ascii ''b'', sentenceLine]"
proof -
  have "split (\<lambda>c. c = 0x0A) sentenceLine = [sentenceLine]"
    by (rule split_no_delimiter) (use sentenceLine_free in auto)
  moreover have "split (\<lambda>c. c = 0x0A) (ascii ''b'' @ 0x0A # sentenceLine)
                 = ascii ''b'' # split (\<lambda>c. c = 0x0A) sentenceLine"
    by (rule split_append_delimiter) (simp_all add: ascii_def)
  ultimately show ?thesis by (simp add: lines_of_def sentenceExample_def)
qed

lemma sentenceLine_segments:
  "split sentence_delimiter sentenceLine = [replicate 101 0x61, [0x62], replicate 102 0x63]"
proof -
  have 3: "split sentence_delimiter (replicate 102 0x63) = [replicate 102 0x63]"
    by (rule split_no_delimiter) (simp add: sentence_delimiter_iff)
  have 2: "split sentence_delimiter ([0x62] @ 0xFF0E # replicate 102 0x63)
           = [0x62] # split sentence_delimiter (replicate 102 0x63)"
    by (rule split_append_delimiter) (simp_all add: sentence_delimiter_iff)
  have 1: "split sentence_delimiter (replicate 101 0x61 @ 0x3002 # ([0x62] @ 0xFF0E # replicate 102 0x63))
           = replicate 101 0x61 # split sentence_delimiter ([0x62] @ 0xFF0E # replicate 102 0x63)"
    by (rule split_append_delimiter) (simp_all add: sentence_delimiter_iff)
  from 1 2 3 show ?thesis by (simp add: sentenceLine_def)
qed

lemma sentenceLine_diagnostics:
  "over_length_diagnostics sentenceLine 2
   = [\<lparr>type = ascii ''lint'', ruleId = ascii ''sentence-length'',
          message = [0x6587, 0x304C, 0x9577, 0x3059, 0x304E, 0x307E, 0x3059, 0x3002, 0x31, 0x30,
                     0x30, 0x6587, 0x5B57, 0x4EE5, 0x5185, 0x306B, 0x3057, 0x3066, 0x304F,
                     0x3060, 0x3055, 0x3044, 0x3002, 0x73FE, 0x5728, 0x306E, 0x6587, 0x5B57,
                     0x6570, 0x3A, 0x20] @ [0x31, 0x30, 0x31],
          line = 2, column = 1, severity = 2\<rparr>,
              \<lparr>type = ascii ''lint'', ruleId = ascii ''sentence-length'',
          message = [0x6587, 0x304C, 0x9577, 0x3059, 0x304E, 0x307E, 0x3059, 0x3002, 0x31, 0x30,
                     0x30, 0x6587, 0x5B57, 0x4EE5, 0x5185, 0x306B, 0x3057, 0x3066, 0x304F,
                     0x3060, 0x3055, 0x3044, 0x3002, 0x73FE, 0x5728, 0x306E, 0x6587, 0x5B57,
                     0x6570, 0x3A, 0x20] @ [0x31, 0x30, 0x32],
          line = 2, column = 105, severity = 2\<rparr>]"
  unfolding over_length_diagnostics_def sentenceLine_segments Let_def
  by (simp add: segment_start_def decimal_101 decimal_102)

lemma twoSentences_lines: "lines_of twoSentences = [twoSentences]"
  unfolding lines_of_def by (rule split_no_delimiter) (auto simp: twoSentences_def)

lemma twoSentences_segments:
  "split sentence_delimiter twoSentences = [replicate 60 0x61, replicate 60 0x61]"
proof -
  have 2: "split sentence_delimiter (replicate 60 0x61) = [replicate 60 0x61]"
    by (rule split_no_delimiter) (simp add: sentence_delimiter_iff)
  have 1: "split sentence_delimiter (replicate 60 0x61 @ 0x3002 # replicate 60 0x61)
           = replicate 60 0x61 # split sentence_delimiter (replicate 60 0x61)"
    by (rule split_append_delimiter) (simp_all add: sentence_delimiter_iff)
  from 1 2 show ?thesis by (simp add: twoSentences_def)
qed

subsection \<open>The context examples, evaluated\<close>

lemma contextExample2_lines: "lines_of contextExample2 = [ascii ''xy'', contextExample]"
  by (simp add: lines_of_def contextExample2_def contextExample_def ascii_def)

lemma contextExample2_context:
  "getErrorContext contextExample2 2 4 2
     = \<lparr>before = ascii ''...b '', error = ascii ''cd'', after = ascii '', ...''\<rparr>"
proof -
  have i: "errorStart 4 = 3" "beforeStart 4 2 = 1" "errorEnd contextExample 4 = 5"
    "afterEnd contextExample 4 2 = 7" "length contextExample = 9"
    by (simp_all add: errorStart_def beforeStart_def errorEnd_def afterEnd_def
        contextExample_word) (simp_all add: contextExample_def ascii_def)
  have s: "substring contextExample 1 3 = ascii ''b ''"
    "substring contextExample 3 5 = ascii ''cd''"
    "substring contextExample 5 7 = ascii '', ''"
    by (simp_all add: substring_def clamp_index_def contextExample_def ascii_def)
  show ?thesis
    by (simp add: getErrorContext_def contextExample2_lines i s ellipsis_def ascii_def)
qed

lemma contextExample2_selection: "selection contextExample2 2 4 = (6, 2, ascii ''cd'')"
proof -
  have w: "wordLength (substring_from contextExample 3) = 2"
    using contextExample_word by (simp add: errorLength_def errorStart_def)
  have s: "substring contextExample2 6 8 = ascii ''cd''"
    by (simp add: substring_def clamp_index_def contextExample2_def contextExample_def ascii_def)
  have n: "length (ascii ''xy'') = 2" by (simp add: ascii_def)
  show ?thesis by (simp add: selection_def contextExample2_lines w s n)
qed

lemma twoShortLines_lines: "lines_of twoShortLines = [ascii ''ab'', ascii ''cd'']"
  by (simp add: lines_of_def twoShortLines_def ascii_def)

lemma fst_snd_selection:
  assumes "1 \<le> ln" "ln \<le> int (length (lines_of text))" "1 \<le> col"
  shows "fst (snd (selection text ln col)) = errorLength (lines_of text ! nat (ln - 1)) col"
  using assms by (simp add: selection_def Let_def errorLength_def errorStart_def)

lemma error_in_line:
  assumes "1 \<le> ln" "ln \<le> int (length (lines_of text))"
    and "1 \<le> col" "col \<le> int (length (lines_of text ! nat (ln - 1)))"
  shows "error (getErrorContext text ln col cl) = snd (snd (selection text ln col))"
    and "int (length (error (getErrorContext text ln col cl)))
         = errorLength (lines_of text ! nat (ln - 1)) col"
proof -
  define s where "s = lines_of text ! nat (ln - 1)"
  note sp = span_in_line[OF assms(3) assms(4)[folded s_def]]
  have w1: "1 \<le> errorLength s col" by (simp add: errorLength_def wordLength_ge1)
  have e: "error (getErrorContext text ln col cl)
           = take (nat (errorLength s col)) (drop (nat (col - 1)) s)"
    by (simp add: getErrorContext_in_range[OF assms(1,2)] s_def[symmetric] sp(4))
  from selection_in_line[OF assms] e
  show "error (getErrorContext text ln col cl) = snd (snd (selection text ln col))"
    by (simp add: s_def)
  show "int (length (error (getErrorContext text ln col cl)))
         = errorLength (lines_of text ! nat (ln - 1)) col"
    unfolding e s_def[symmetric] using sp(3) w1 assms(3) by simp
qed

subsection \<open>Steps of the pipeline\<close>








section \<open>The claims\<close>

subsection \<open>The colon rule\<close>

text \<open>
  Claim C1. The lines of a text are the pieces between its line breaks. For every line
  that contains an ASCII colon or a full-width colon, both copies of the engine emit
  exactly one \<open>no-ai-colon-continuation\<close> diagnostic with the number of that line, and
  its column is one more than the later of the first occurrences of the two colons. In
  particular, with the first ASCII colon at index 5 and the first full-width colon at
  index 10 the column is 11.
\<close>

theorem colon_one_diagnostic:
  assumes "j < length (lines_of text)"
    and "0x3A \<in> set (lines_of text ! j) \<or> 0xFF1A \<in> set (lines_of text ! j)"
  shows "(lines_of text \<noteq> [] \<and> (\<forall>l\<in>set (lines_of text). 0x0A \<notin> set l)
          \<and> interleave (lines_of text) (replicate (length (lines_of text) - 1) 0x0A) = text)
       \<and> (\<exists>r. generateMockLintResult text = Some r
            \<and> filter (\<lambda>m. ruleId m = ascii ''no-ai-colon-continuation'' \<and> line m = int j + 1)
                 (messages r)
              = [\<lparr>type = ascii ''lint'', ruleId = ascii ''no-ai-colon-continuation'',
           message = [0x30B3, 0x30ED, 0x30F3, 0x306E, 0x4F7F, 0x7528, 0x306F, 0x907F, 0x3051,
                      0x3066, 0x304F, 0x3060, 0x3055, 0x3044],
           line = int j + 1, column = int (later_colon (lines_of text ! j)) + 1, severity = 1\<rparr>])
       \<and> (\<exists>r. generateMockLintResult2 text = Some r
            \<and> filter (\<lambda>m. ruleId m = ascii ''no-ai-colon-continuation'' \<and> line m = int j + 1)
                 (messages r)
              = [\<lparr>type = ascii ''lint'', ruleId = ascii ''no-ai-colon-continuation'',
           message = [0x30B3, 0x30ED, 0x30F3, 0x306E, 0x4F7F, 0x7528, 0x306F, 0x907F, 0x3051,
                      0x3066, 0x304F, 0x3060, 0x3055, 0x3044],
           line = int j + 1, column = int (later_colon (lines_of text ! j)) + 1, severity = 1\<rparr>])
       \<and> (0x3A \<in> set (lines_of text ! j) \<and> 0xFF1A \<in> set (lines_of text ! j)
            \<and> first_index 0x3A (lines_of text ! j) = 5
            \<and> first_index 0xFF1A (lines_of text ! j) = 10
          \<longrightarrow> int (later_colon (lines_of text ! j)) + 1 = 11)"
proof -
  note c = check_colon_spec[OF assms(2), unfolded push_def colonMessage_def]
  from engine_result[OF line_callback1, of "lines_of text"] assms(1) c
  have 1: "\<exists>r. generateMockLintResult text = Some r
            \<and> filter (\<lambda>m. ruleId m = ascii ''no-ai-colon-continuation'' \<and> line m = int j + 1)
                 (messages r)
              = [\<lparr>type = ascii ''lint'', ruleId = ascii ''no-ai-colon-continuation'',
           message = [0x30B3, 0x30ED, 0x30F3, 0x306E, 0x4F7F, 0x7528, 0x306F, 0x907F, 0x3051,
                      0x3066, 0x304F, 0x3060, 0x3055, 0x3044],
           line = int j + 1, column = int (later_colon (lines_of text ! j)) + 1, severity = 1\<rparr>]"
    unfolding generateMockLintResult_def by force
  from engine_result[OF line_callback2, of "lines_of text"] assms(1) c
  have 2: "\<exists>r. generateMockLintResult2 text = Some r
            \<and> filter (\<lambda>m. ruleId m = ascii ''no-ai-colon-continuation'' \<and> line m = int j + 1)
                 (messages r)
              = [\<lparr>type = ascii ''lint'', ruleId = ascii ''no-ai-colon-continuation'',
           message = [0x30B3, 0x30ED, 0x30F3, 0x306E, 0x4F7F, 0x7528, 0x306F, 0x907F, 0x3051,
                      0x3066, 0x304F, 0x3060, 0x3055, 0x3044],
           line = int j + 1, column = int (later_colon (lines_of text ! j)) + 1, severity = 1\<rparr>]"
    unfolding generateMockLintResult2_def by force
  from 1 2 lines_of_spec[of "text"] show ?thesis by (simp add: later_colon_def)
qed

theorem colon_one_diagnostic_witness:
  "1 < length (lines_of colonExample) \<and> 0x3A \<in> set (lines_of colonExample ! 1)
   \<and> lines_of colonExample = [ascii ''x:'', scenarioE]
   \<and> first_index 0x3A scenarioE = 5 \<and> first_index 0xFF1A scenarioE = 10
   \<and> generateMockLintResult colonExample =
       Some \<lparr>messages =
             [\<lparr>type = ascii ''lint'', ruleId = ascii ''no-ai-colon-continuation'',
           message = [0x30B3, 0x30ED, 0x30F3, 0x306E, 0x4F7F, 0x7528, 0x306F, 0x907F, 0x3051,
                      0x3066, 0x304F, 0x3060, 0x3055, 0x3044],
           line = 1, column = 2, severity = 1\<rparr>,
              \<lparr>type = ascii ''lint'', ruleId = ascii ''no-ai-colon-continuation'',
           message = [0x30B3, 0x30ED, 0x30F3, 0x306E, 0x4F7F, 0x7528, 0x306F, 0x907F, 0x3051,
                      0x3066, 0x304F, 0x3060, 0x3055, 0x3044],
           line = 2, column = 11, severity = 1\<rparr>],
           errorCount = 0, warningCount = 2\<rparr>
   \<and> generateMockLintResult2 colonExample =
       Some \<lparr>messages =
             [\<lparr>type = ascii ''lint'', ruleId = ascii ''no-ai-colon-continuation'',
           message = [0x30B3, 0x30ED, 0x30F3, 0x306E, 0x4F7F, 0x7528, 0x306F, 0x907F, 0x3051,
                      0x3066, 0x304F, 0x3060, 0x3055, 0x3044],
           line = 1, column = 2, severity = 1\<rparr>,
              \<lparr>type = ascii ''lint'', ruleId = ascii ''no-ai-colon-continuation'',
           message = [0x30B3, 0x30ED, 0x30F3, 0x306E, 0x4F7F, 0x7528, 0x306F, 0x907F, 0x3051,
                      0x3066, 0x304F, 0x3060, 0x3055, 0x3044],
           line = 2, column = 11, severity = 1\<rparr>],
           errorCount = 0, warningCount = 2\<rparr>"
proof -
  have h: "1 < length (lines_of colonExample)" "0x3A \<in> set (lines_of colonExample ! 1)"
    by (simp_all add: colonExample_lines scenarioE_def ascii_def)
  have f: "first_index 0x3A scenarioE = 5" "first_index 0xFF1A scenarioE = 10"
    by (simp_all add: first_index_def scenarioE_def ascii_def)
  from colon_one_diagnostic[of 1 colonExample, OF h(1) disjI1[OF h(2)]] h f
    colonExample_lines colonExample_result
  show ?thesis by simp
qed

subsection \<open>Scenario B\<close>

text \<open>
  Claim C2, as the engine behaves. For the seven-character text of scenario B the engine
  returns exactly two diagnostics: first one of rule \<open>no-doubled-joshi\<close> at line 1,
  column 2, severity 1, whose message quotes the particle \<open>U+306F\<close>; then one of rule
  \<open>ja-no-successive-word\<close> at line 1, column 1, severity 2, for the repeated first
  two characters.
\<close>

theorem scenarioB_two_diagnostics:
  "generateMockLintResult scenarioB =
     Some \<lparr>messages =
             [push (ascii ''no-doubled-joshi'')
                ([0x52A9, 0x8A5E, 0x300C] @ [0x306F]
                 @ [0x300D, 0x304C, 0x9023, 0x7D9A, 0x3057, 0x3066, 0x4F7F, 0x7528, 0x3055,
                    0x308C, 0x3066, 0x3044, 0x307E, 0x3059]) 1 2 1,
              push (ascii ''ja-no-successive-word'') (successiveMessage [0x5F7C, 0x306F]) 1 1 2],
           errorCount = 1, warningCount = 1\<rparr>"
  by (simp add: generateMockLintResult_def scenarioB_messages result_of_def push_def
      doubleJoshiMessage_def)

text \<open>The number of diagnostics for scenario B is not one.\<close>

theorem scenarioB_not_one_diagnostic:
  "map_option (length \<circ> messages) (generateMockLintResult scenarioB) \<noteq> Some 1"
  by (simp add: generateMockLintResult_def scenarioB_messages result_of_def)

subsection \<open>The sentence-length rule\<close>

text \<open>
  Claim C3, as the two copies of the engine behave. The segments of a line are the pieces
  between its ideographic and full-width full stops. In the first copy of the engine the
  sentence-length diagnostics of every line are: one diagnostic of severity 2 for each
  segment longer than 100 characters, with the length in its message and with the column
  one more than the running offset of the segment (the lengths of the segments before it
  plus one for each delimiter), at which the segment lies in the line. The second copy
  does not split the line: it gives one diagnostic at column 1, with the length of the
  whole line, when the line is longer than 100 characters, and none otherwise. In
  particular a text of 101 characters, none of them a delimiter or a line break, gives in
  both copies exactly one sentence-length diagnostic, at line 1 and column 1, whose
  message ends with the digits \<open>101\<close>.
\<close>

theorem sentence_length_diagnostics:
  assumes "j < length (lines_of text)"
  shows "(lines_of text \<noteq> [] \<and> (\<forall>l\<in>set (lines_of text). 0x0A \<notin> set l)
          \<and> interleave (lines_of text) (replicate (length (lines_of text) - 1) 0x0A) = text)
       \<and> ((\<forall>seg\<in>set (split sentence_delimiter (lines_of text ! j)).
             0x3002 \<notin> set seg \<and> 0xFF0E \<notin> set seg)
          \<and> (\<exists>ds. length ds + 1 = length (split sentence_delimiter (lines_of text ! j))
                 \<and> set ds \<subseteq> {0x3002, 0xFF0E}
                 \<and> interleave (split sentence_delimiter (lines_of text ! j)) ds
                    = lines_of text ! j))
       \<and> (\<forall>k<length (split sentence_delimiter (lines_of text ! j)).
            take (length (split sentence_delimiter (lines_of text ! j) ! k))
              (drop (segment_start (split sentence_delimiter (lines_of text ! j)) k)
                 (lines_of text ! j))
            = split sentence_delimiter (lines_of text ! j) ! k)
       \<and> (\<exists>r. generateMockLintResult text = Some r
            \<and> filter (\<lambda>m. ruleId m = ascii ''sentence-length'' \<and> line m = int j + 1) (messages r)
              = over_length_diagnostics (lines_of text ! j) (int j + 1))
       \<and> (\<exists>r. generateMockLintResult2 text = Some r
            \<and> filter (\<lambda>m. ruleId m = ascii ''sentence-length'' \<and> line m = int j + 1) (messages r)
              = whole_line_diagnostics (lines_of text ! j) (int j + 1))
       \<and> (length text = 101 \<and> (\<forall>c\<in>set text. c \<noteq> 0x3002 \<and> c \<noteq> 0xFF0E \<and> c \<noteq> 0x0A) \<longrightarrow>
            (\<exists>r. generateMockLintResult text = Some r
               \<and> filter (\<lambda>m. ruleId m = ascii ''sentence-length'') (messages r)
                 = [\<lparr>type = ascii ''lint'', ruleId = ascii ''sentence-length'',
          message = [0x6587, 0x304C, 0x9577, 0x3059, 0x304E, 0x307E, 0x3059, 0x3002, 0x31, 0x30,
                     0x30, 0x6587, 0x5B57, 0x4EE5, 0x5185, 0x306B, 0x3057, 0x3066, 0x304F,
                     0x3060, 0x3055, 0x3044, 0x3002, 0x73FE, 0x5728, 0x306E, 0x6587, 0x5B57,
                     0x6570, 0x3A, 0x20] @ [0x31, 0x30, 0x31],
          line = 1, column = 1, severity = 2\<rparr>])
          \<and> (\<exists>r. generateMockLintResult2 text = Some r
               \<and> filter (\<lambda>m. ruleId m = ascii ''sentence-length'') (messages r)
                 = [\<lparr>type = ascii ''lint'', ruleId = ascii ''sentence-length'',
          message = [0x6587, 0x304C, 0x9577, 0x3059, 0x304E, 0x307E, 0x3059, 0x3002, 0x31, 0x30,
                     0x30, 0x6587, 0x5B57, 0x4EE5, 0x5185, 0x306B, 0x3057, 0x3066, 0x304F,
                     0x3060, 0x3055, 0x3044, 0x3002, 0x73FE, 0x5728, 0x306E, 0x6587, 0x5B57,
                     0x6570, 0x3A, 0x20] @ [0x31, 0x30, 0x31],
          line = 1, column = 1, severity = 2\<rparr>]))"
proof (intro conjI impI)
  show "lines_of text \<noteq> []" "\<forall>l\<in>set (lines_of text). 0x0A \<notin> set l"
    "interleave (lines_of text) (replicate (length (lines_of text) - 1) 0x0A) = text"
    using lines_of_spec[of "text"] by simp_all
next
  show "\<forall>seg\<in>set (split sentence_delimiter (lines_of text ! j)).
             0x3002 \<notin> set seg \<and> 0xFF0E \<notin> set seg"
    "\<exists>ds. length ds + 1 = length (split sentence_delimiter (lines_of text ! j))
                 \<and> set ds \<subseteq> {0x3002, 0xFF0E}
                 \<and> interleave (split sentence_delimiter (lines_of text ! j)) ds
                    = lines_of text ! j"
    using segments_spec[of "lines_of text ! j"] by simp_all
next
  show "\<forall>k<length (split sentence_delimiter (lines_of text ! j)).
            take (length (split sentence_delimiter (lines_of text ! j) ! k))
              (drop (segment_start (split sentence_delimiter (lines_of text ! j)) k)
                 (lines_of text ! j))
            = split sentence_delimiter (lines_of text ! j) ! k"
    using split_segment_at by blast
next
  from engine_result[OF line_callback1, of "lines_of text"] assms
  show "\<exists>r. generateMockLintResult text = Some r
            \<and> filter (\<lambda>m. ruleId m = ascii ''sentence-length'' \<and> line m = int j + 1) (messages r)
              = over_length_diagnostics (lines_of text ! j) (int j + 1)"
    unfolding generateMockLintResult_def check_sentence_length_spec[symmetric] by force
next
  from engine_result[OF line_callback2, of "lines_of text"] assms
  show "\<exists>r. generateMockLintResult2 text = Some r
            \<and> filter (\<lambda>m. ruleId m = ascii ''sentence-length'' \<and> line m = int j + 1) (messages r)
              = whole_line_diagnostics (lines_of text ! j) (int j + 1)"
    unfolding generateMockLintResult2_def check_sentence_length2_spec[symmetric] by force
next
  assume a: "length text = 101 \<and> (\<forall>c\<in>set text. c \<noteq> 0x3002 \<and> c \<noteq> 0xFF0E \<and> c \<noteq> 0x0A)"
  then have l: "lines_of text = [text]" by (simp add: lines_of_def split_no_delimiter)
  from a have nd: "\<forall>c\<in>set text. \<not> sentence_delimiter c" by (simp add: sentence_delimiter_iff)
  from a have len: "length text = 101" by simp
  note d = single_line_diagnostics[OF len nd]
  from single_line_result[OF line_callback1, of "text"]
  show "\<exists>r. generateMockLintResult text = Some r
               \<and> filter (\<lambda>m. ruleId m = ascii ''sentence-length'') (messages r)
                 = [\<lparr>type = ascii ''lint'', ruleId = ascii ''sentence-length'',
          message = [0x6587, 0x304C, 0x9577, 0x3059, 0x304E, 0x307E, 0x3059, 0x3002, 0x31, 0x30,
                     0x30, 0x6587, 0x5B57, 0x4EE5, 0x5185, 0x306B, 0x3057, 0x3066, 0x304F,
                     0x3060, 0x3055, 0x3044, 0x3002, 0x73FE, 0x5728, 0x306E, 0x6587, 0x5B57,
                     0x6570, 0x3A, 0x20] @ [0x31, 0x30, 0x31],
          line = 1, column = 1, severity = 2\<rparr>]"
    unfolding generateMockLintResult_def l check_sentence_length_spec d(1) .
  from single_line_result[OF line_callback2, of "text"]
  show "\<exists>r. generateMockLintResult2 text = Some r
               \<and> filter (\<lambda>m. ruleId m = ascii ''sentence-length'') (messages r)
                 = [\<lparr>type = ascii ''lint'', ruleId = ascii ''sentence-length'',
          message = [0x6587, 0x304C, 0x9577, 0x3059, 0x304E, 0x307E, 0x3059, 0x3002, 0x31, 0x30,
                     0x30, 0x6587, 0x5B57, 0x4EE5, 0x5185, 0x306B, 0x3057, 0x3066, 0x304F,
                     0x3060, 0x3055, 0x3044, 0x3002, 0x73FE, 0x5728, 0x306E, 0x6587, 0x5B57,
                     0x6570, 0x3A, 0x20] @ [0x31, 0x30, 0x31],
          line = 1, column = 1, severity = 2\<rparr>]"
    unfolding generateMockLintResult2_def l check_sentence_length2_spec d(2) .
qed

theorem sentence_length_diagnostics_witness:
  "1 < length (lines_of sentenceExample)
   \<and> lines_of sentenceExample = [ascii ''b'', sentenceLine]
   \<and> split sentence_delimiter sentenceLine = [replicate 101 0x61, [0x62], replicate 102 0x63]
   \<and> (\<exists>r. generateMockLintResult sentenceExample = Some r
         \<and> filter (\<lambda>m. ruleId m = ascii ''sentence-length'' \<and> line m = 2) (messages r)
           = [\<lparr>type = ascii ''lint'', ruleId = ascii ''sentence-length'',
          message = [0x6587, 0x304C, 0x9577, 0x3059, 0x304E, 0x307E, 0x3059, 0x3002, 0x31, 0x30,
                     0x30, 0x6587, 0x5B57, 0x4EE5, 0x5185, 0x306B, 0x3057, 0x3066, 0x304F,
                     0x3060, 0x3055, 0x3044, 0x3002, 0x73FE, 0x5728, 0x306E, 0x6587, 0x5B57,
                     0x6570, 0x3A, 0x20] @ [0x31, 0x30, 0x31],
          line = 2, column = 1, severity = 2\<rparr>,
              \<lparr>type = ascii ''lint'', ruleId = ascii ''sentence-length'',
          message = [0x6587, 0x304C, 0x9577, 0x3059, 0x304E, 0x307E, 0x3059, 0x3002, 0x31, 0x30,
                     0x30, 0x6587, 0x5B57, 0x4EE5, 0x5185, 0x306B, 0x3057, 0x3066, 0x304F,
                     0x3060, 0x3055, 0x3044, 0x3002, 0x73FE, 0x5728, 0x306E, 0x6587, 0x5B57,
                     0x6570, 0x3A, 0x20] @ [0x31, 0x30, 0x32],
          line = 2, column = 105, severity = 2\<rparr>])"
proof -
  have h: "1 < length (lines_of sentenceExample)" by (simp add: sentenceExample_lines)
  from sentence_length_diagnostics[of 1 sentenceExample, OF h]
  have "\<exists>r. generateMockLintResult sentenceExample = Some r
            \<and> filter (\<lambda>m. ruleId m = ascii ''sentence-length'' \<and> line m = int 1 + 1) (messages r)
              = over_length_diagnostics (lines_of sentenceExample ! 1) (int 1 + 1)"
    by blast
  then have "\<exists>r. generateMockLintResult sentenceExample = Some r
         \<and> filter (\<lambda>m. ruleId m = ascii ''sentence-length'' \<and> line m = 2) (messages r)
           = over_length_diagnostics sentenceLine 2"
    by (simp add: sentenceExample_lines)
  with h sentenceExample_lines sentenceLine_segments show ?thesis
    unfolding sentenceLine_diagnostics by blast
qed

text \<open>
  In the second copy of the engine a line of two segments of 60 characters, neither
  longer than 100, gets a sentence-length diagnostic, for its whole length of 121.
\<close>

theorem second_copy_whole_line:
  "map length (split sentence_delimiter twoSentences) = [60, 60]
   \<and> map_option (rule_diagnostics (ascii ''sentence-length'')) (generateMockLintResult2 twoSentences)
     = Some [\<lparr>type = ascii ''lint'', ruleId = ascii ''sentence-length'',
          message = [0x6587, 0x304C, 0x9577, 0x3059, 0x304E, 0x307E, 0x3059, 0x3002, 0x31, 0x30,
                     0x30, 0x6587, 0x5B57, 0x4EE5, 0x5185, 0x306B, 0x3057, 0x3066, 0x304F,
                     0x3060, 0x3055, 0x3044, 0x3002, 0x73FE, 0x5728, 0x306E, 0x6587, 0x5B57,
                     0x6570, 0x3A, 0x20] @ [0x31, 0x32, 0x31],
          line = 1, column = 1, severity = 2\<rparr>]"
proof -
  have len: "length twoSentences = 121" by (simp add: twoSentences_def)
  from single_line_result[OF line_callback2, of twoSentences]
  have "map_option (rule_diagnostics (ascii ''sentence-length'')) (generateMockLintResult2 twoSentences)
        = Some (check_sentence_length2 twoSentences 1)"
    unfolding generateMockLintResult2_def twoSentences_lines rule_diagnostics_def by auto
  then show ?thesis
    by (simp add: twoSentences_segments check_sentence_length2_spec whole_line_diagnostics_def
        len decimal_121)
qed

subsection \<open>Counts of the result\<close>

text \<open>
  Claim C4. For every input text the engine returns a result; every diagnostic in it has
  severity 1 or 2, \<open>errorCount\<close> is the number of diagnostics of severity 2,
  \<open>warningCount\<close> the number of those of severity 1, and the two add up to the number
  of diagnostics.
\<close>

theorem lint_counts:
  "\<exists>r. generateMockLintResult text = Some r
     \<and> (\<forall>m\<in>set (messages r). severity m = 1 \<or> severity m = 2)
     \<and> errorCount r = int (length (filter (\<lambda>m. severity m = 2) (messages r)))
     \<and> warningCount r = int (length (filter (\<lambda>m. severity m = 1) (messages r)))
     \<and> errorCount r + warningCount r = int (length (messages r))"
proof -
  from engine_messages[OF line_callback1, of "lines_of text"] obtain msgs where
    m: "lines_forEach lint_line (lines_of text) 0 = Some msgs"
       "\<forall>m\<in>set msgs. severity m = 1 \<or> severity m = 2" by blast
  have "generateMockLintResult text = Some (result_of msgs)"
    by (simp add: generateMockLintResult_def m(1))
  moreover have "errorCount (result_of msgs) + warningCount (result_of msgs) = int (length msgs)"
    using count_severities[OF m(2)] by (simp add: result_of_def)
  ultimately show ?thesis using m(2) by (simp add: result_of_def)
qed

theorem lint_counts_witness:
  "\<exists>r. generateMockLintResult scenarioB = Some r
     \<and> errorCount r + warningCount r = int (length (messages r)) \<and> length (messages r) = 2"
  using lint_counts[of scenarioB]
  by (simp add: generateMockLintResult_def scenarioB_messages result_of_def push_def)

subsection \<open>The context snippet\<close>

text \<open>
  Claim C5, as the code behaves. For every text, every line number in
  \<open>[1, lineCount]\<close> and every column (and every context length that is not negative, 20
  being the one the page uses): when the ellipsis marker is removed from the front of
  \<open>before\<close> if it was truncated and from the end of \<open>after\<close> if it was truncated,
  \<open>before @ error @ after\<close> is a contiguous substring of the line, the one from
  \<open>beforeStart\<close> to \<open>afterEnd\<close>, and \<open>error\<close> is the part of the line from
  \<open>errorStart\<close> to \<open>errorEnd\<close>, cut at the end of the line. For a column in
  \<open>[1, lineLength]\<close> the error text is exactly the resolved span: it has the length of
  the span, at least 1, and it is the range of the text that \<open>scrollToError\<close> selects.
\<close>

theorem context_round_trip:
  assumes "1 \<le> ln" "ln \<le> int (length (lines_of text))" "0 \<le> contextLength"
  shows "(lines_of text \<noteq> [] \<and> (\<forall>l\<in>set (lines_of text). 0x0A \<notin> set l)
          \<and> interleave (lines_of text) (replicate (length (lines_of text) - 1) 0x0A) = text)
       \<and> strip_ellipsis_prefix (0 < beforeStart col contextLength)
           (before (getErrorContext text ln col contextLength))
         @ error (getErrorContext text ln col contextLength)
         @ strip_ellipsis_suffix
             (afterEnd (lines_of text ! nat (ln - 1)) col contextLength
                < int (length (lines_of text ! nat (ln - 1))))
             (after (getErrorContext text ln col contextLength))
         = substring (lines_of text ! nat (ln - 1)) (beforeStart col contextLength)
             (afterEnd (lines_of text ! nat (ln - 1)) col contextLength)
       \<and> (\<exists>i n. substring (lines_of text ! nat (ln - 1)) (beforeStart col contextLength)
                   (afterEnd (lines_of text ! nat (ln - 1)) col contextLength)
                 = take n (drop i (lines_of text ! nat (ln - 1))))
       \<and> error (getErrorContext text ln col contextLength)
         = substring (lines_of text ! nat (ln - 1)) (errorStart col)
             (errorEnd (lines_of text ! nat (ln - 1)) col)
       \<and> (1 \<le> col \<and> col \<le> int (length (lines_of text ! nat (ln - 1))) \<longrightarrow>
            error (getErrorContext text ln col contextLength) = snd (snd (selection text ln col))
          \<and> int (length (error (getErrorContext text ln col contextLength)))
              = fst (snd (selection text ln col))
          \<and> 1 \<le> fst (snd (selection text ln col)))"
proof -
  define s where "s = lines_of text ! nat (ln - 1)"
  note idx = context_indices[OF assms(3), of s col]
  have rt: "substring s (beforeStart col contextLength) (errorStart col)
        @ substring s (errorStart col) (errorEnd s col)
        @ substring s (errorEnd s col) (afterEnd s col contextLength)
        = substring s (beforeStart col contextLength) (afterEnd s col contextLength)"
    by (rule substring_three[OF idx])
  have ex: "\<exists>i n. substring s (beforeStart col contextLength) (afterEnd s col contextLength)
                 = take n (drop i s)"
    unfolding substring_def Let_def by blast
  have sel: "error (getErrorContext text ln col contextLength) = snd (snd (selection text ln col))
          \<and> int (length (error (getErrorContext text ln col contextLength)))
              = fst (snd (selection text ln col))
          \<and> 1 \<le> fst (snd (selection text ln col))"
    if c: "1 \<le> col \<and> col \<le> int (length s)"
  proof -
    from c have c1: "1 \<le> col" and c2: "col \<le> int (length (lines_of text ! nat (ln - 1)))"
      by (simp_all add: s_def)
    have w1: "1 \<le> errorLength s col" by (simp add: errorLength_def wordLength_ge1)
    from error_in_line[OF assms(1,2) c1 c2, of contextLength]
      fst_snd_selection[OF assms(1,2) c1] w1
    show ?thesis by (simp add: s_def)
  qed
  have main: "strip_ellipsis_prefix (0 < beforeStart col contextLength)
           (before (getErrorContext text ln col contextLength))
         @ error (getErrorContext text ln col contextLength)
         @ strip_ellipsis_suffix (afterEnd s col contextLength < int (length s))
             (after (getErrorContext text ln col contextLength))
         = substring s (beforeStart col contextLength) (afterEnd s col contextLength)
       \<and> error (getErrorContext text ln col contextLength)
         = substring s (errorStart col) (errorEnd s col)"
    using rt unfolding getErrorContext_in_range[OF assms(1,2)] s_def[symmetric]
    by (simp add: strip_ellipsis_prefix_def strip_ellipsis_suffix_def)
  from main ex sel lines_of_spec[of "text"] show ?thesis unfolding s_def by blast
qed

theorem context_round_trip_witness:
  "(1::int) \<le> 2 \<and> 2 \<le> int (length (lines_of contextExample2)) \<and> (0::int) \<le> 2
   \<and> lines_of contextExample2 = [ascii ''xy'', contextExample]
   \<and> drop 3 (before (getErrorContext contextExample2 2 4 2))
     @ error (getErrorContext contextExample2 2 4 2)
     @ take 2 (after (getErrorContext contextExample2 2 4 2))
     = substring contextExample 1 7
   \<and> substring contextExample 1 7 = ascii ''b cd, ''
   \<and> getErrorContext contextExample2 2 4 2
     = \<lparr>before = ascii ''...b '', error = ascii ''cd'', after = ascii '', ...''\<rparr>
   \<and> selection contextExample2 2 4 = (6, 2, ascii ''cd'')"
proof -
  have h: "(1::int) \<le> 2" "2 \<le> int (length (lines_of contextExample2))" "(0::int) \<le> 2"
    by (simp_all add: contextExample2_lines)
  have i: "beforeStart 4 2 = 1" "afterEnd contextExample 4 2 = 7" "length contextExample = 9"
    by (simp_all add: errorStart_def beforeStart_def errorEnd_def afterEnd_def
        contextExample_word) (simp_all add: contextExample_def ascii_def)
  have s: "substring contextExample 1 7 = ascii ''b cd, ''"
    by (simp add: substring_def clamp_index_def contextExample_def ascii_def)
  from context_round_trip[OF h, of 4, THEN conjunct2, THEN conjunct1] have
    "strip_ellipsis_prefix True (before (getErrorContext contextExample2 2 4 2))
      @ error (getErrorContext contextExample2 2 4 2)
      @ strip_ellipsis_suffix True (after (getErrorContext contextExample2 2 4 2))
      = substring contextExample 1 7"
    by (simp add: contextExample2_lines i)
  then have "drop 3 (before (getErrorContext contextExample2 2 4 2))
     @ error (getErrorContext contextExample2 2 4 2)
     @ take 2 (after (getErrorContext contextExample2 2 4 2))
     = substring contextExample 1 7"
    unfolding contextExample2_context
    by (simp add: strip_ellipsis_prefix_def strip_ellipsis_suffix_def ellipsis_def ascii_def)
  with h s contextExample2_context contextExample2_selection contextExample2_lines
  show ?thesis by simp
qed

text \<open>
  At the column after the end of the first of two lines the error text is empty while
  the selection of \<open>scrollToError\<close> is the line break, of length 1.
\<close>

theorem context_error_not_span:
  "lines_of twoShortLines = [ascii ''ab'', ascii ''cd'']
   \<and> error (getErrorContext twoShortLines 1 3 20) = []
   \<and> selection twoShortLines 1 3 = (2, 1, [0x0A])"
proof -
  have n: "length (ascii ''ab'') = 2" by (simp add: ascii_def)
  have r: "substring_from (ascii ''ab'') 2 = []"
    by (simp add: substring_from_def clamp_index_def n)
  have e: "error (getErrorContext twoShortLines 1 3 20) = []"
    by (simp add: getErrorContext_def Let_def twoShortLines_lines errorStart_def errorEnd_def
        errorLength_def r wordLength_empty substring_def clamp_index_def n)
  have s: "substring twoShortLines 2 3 = [0x0A]"
    by (simp add: substring_def clamp_index_def twoShortLines_def ascii_def)
  have "selection twoShortLines 1 3 = (2, 1, [0x0A])"
    by (simp add: selection_def twoShortLines_lines r wordLength_empty s)
  with e twoShortLines_lines show ?thesis by simp
qed

subsection \<open>Filtering\<close>

text \<open>
  Claim C6. When every rule of the rule list is enabled and the severity filter is
  \<open>all\<close>, \<open>filteredMessages\<close> returns the messages of the lint result unchanged, in
  order and contents.
\<close>

theorem filter_all_enabled:
  assumes "list_all enabled rules"
  shows "filteredMessages (Some res) FilterAll rules = messages res"
proof -
  define keep where
    "keep = (\<lambda>msg::TextlintMessage. case find (\<lambda>r. id' r = ruleId msg) rules of
                      None \<Rightarrow> True | Some rule \<Rightarrow> enabled rule)"
  have "keep msg" for msg
  proof (cases "find (\<lambda>r. id' r = ruleId msg) rules")
    case None
    then show ?thesis by (simp add: keep_def)
  next
    case (Some rule)
    then have "rule \<in> set rules" by (auto simp: find_Some_iff)
    with assms Some show ?thesis by (simp add: keep_def list_all_iff)
  qed
  then have "filter keep (messages res) = messages res" by simp
  then show ?thesis by (simp add: filteredMessages_def keep_def)
qed

theorem filter_all_enabled_witness:
  "list_all enabled initialRules
   \<and> filteredMessages (Some (result_of [push (ascii ''no-doubled-joshi'') [] 1 2 1,
                                        push (ascii ''unknown-rule'') [] 1 1 2]))
        FilterAll initialRules
     = [push (ascii ''no-doubled-joshi'') [] 1 2 1, push (ascii ''unknown-rule'') [] 1 1 2]"
proof -
  have h: "list_all enabled initialRules" by (simp add: initialRules_def)
  from filter_all_enabled[OF h] h show ?thesis by (simp add: result_of_def)
qed

subsection \<open>Context of a line that does not exist\<close>

text \<open>
  Claim C7. For every text and column, when the line number is outside
  \<open>[1, lineCount]\<close> the context extractor returns the snippet whose three parts are
  empty.
\<close>

theorem context_out_of_range:
  assumes "ln < 1 \<or> int (length (lines_of text)) < ln"
  shows "getErrorContext text ln col contextLength = \<lparr>before = [], error = [], after = []\<rparr>"
  using assms by (auto simp: getErrorContext_def Let_def)

theorem context_out_of_range_witness:
  "int (length (lines_of (ascii ''ab''))) < 2
   \<and> getErrorContext (ascii ''ab'') 2 1 20 = \<lparr>before = [], error = [], after = []\<rparr>"
proof -
  have h: "int (length (lines_of (ascii ''ab''))) < 2" by (simp add: lines_of_def ascii_def)
  from context_out_of_range[of 2 "ascii ''ab''" 1 20] h show ?thesis by simp
qed

subsection \<open>The length of the resolved span\<close>

text \<open>
  Claim C8, as the code behaves. For every text, every line number in
  \<open>[1, lineCount]\<close> and every column in \<open>[1, lineLength + 1]\<close>, the resolved span
  has length at least 1, the same in \<open>getErrorContext\<close> and in the selection of
  \<open>scrollToError\<close>, and exactly 1 when the character at the column is a boundary
  character. For a column up to \<open>lineLength\<close> the error text has that length, so it
  is not empty, and it is the text that \<open>scrollToError\<close> selects. At column
  \<open>lineLength + 1\<close> the span has length 1 and the error text is empty.
\<close>

theorem span_at_least_one:
  assumes "1 \<le> ln" "ln \<le> int (length (lines_of text))"
    and "1 \<le> col" "col \<le> int (length (lines_of text ! nat (ln - 1))) + 1"
  shows "1 \<le> errorLength (lines_of text ! nat (ln - 1)) col
       \<and> fst (snd (selection text ln col)) = errorLength (lines_of text ! nat (ln - 1)) col
       \<and> (col \<le> int (length (lines_of text ! nat (ln - 1)))
            \<and> \<not> in_class (CC True boundary_ranges) (lines_of text ! nat (ln - 1) ! nat (col - 1))
          \<longrightarrow> errorLength (lines_of text ! nat (ln - 1)) col = 1)
       \<and> (col \<le> int (length (lines_of text ! nat (ln - 1)))
          \<longrightarrow> error (getErrorContext text ln col contextLength) \<noteq> []
              \<and> int (length (error (getErrorContext text ln col contextLength)))
                  = errorLength (lines_of text ! nat (ln - 1)) col
              \<and> snd (snd (selection text ln col))
                  = error (getErrorContext text ln col contextLength))
       \<and> (col = int (length (lines_of text ! nat (ln - 1))) + 1
          \<longrightarrow> errorLength (lines_of text ! nat (ln - 1)) col = 1
              \<and> error (getErrorContext text ln col contextLength) = [])"
proof -
  define s where "s = lines_of text ! nat (ln - 1)"
  have es: "errorStart col = col - 1" using assms(3) by (simp add: errorStart_def)
  have err: "error (getErrorContext text ln col contextLength)
             = substring s (errorStart col) (errorEnd s col)"
    by (simp add: getErrorContext_in_range[OF assms(1,2)] s_def)
  have w1: "1 \<le> errorLength s col" by (simp add: errorLength_def wordLength_ge1)
  have sel: "fst (snd (selection text ln col)) = errorLength s col"
    using assms(1,2) by (simp add: selection_def Let_def errorLength_def es s_def)
  have bnd: "errorLength s col = 1"
    if "col \<le> int (length s)" "\<not> in_class (CC True boundary_ranges) (s ! nat (col - 1))"
  proof -
    have lt: "nat (col - 1) < length s" using assms(3) that(1) by linarith
    have "drop (nat (col - 1)) s = s ! nat (col - 1) # drop (Suc (nat (col - 1))) s"
      using lt by (simp add: Cons_nth_drop_Suc)
    with span_in_line(2)[OF assms(3) that(1)] wordLength_boundary[OF that(2)]
    show ?thesis by (simp add: errorLength_def es)
  qed
  have inside: "error (getErrorContext text ln col contextLength) \<noteq> []
      \<and> int (length (error (getErrorContext text ln col contextLength))) = errorLength s col
      \<and> snd (snd (selection text ln col)) = error (getErrorContext text ln col contextLength)"
    if c: "col \<le> int (length s)"
  proof -
    note sp = span_in_line[OF assms(3) c]
    have e: "error (getErrorContext text ln col contextLength)
             = take (nat (errorLength s col)) (drop (nat (col - 1)) s)"
      by (simp add: err sp(4))
    have len: "int (length (take (nat (errorLength s col)) (drop (nat (col - 1)) s)))
               = errorLength s col"
      using sp(3) w1 assms(3) c by simp
    from len w1 have ne: "take (nat (errorLength s col)) (drop (nat (col - 1)) s) \<noteq> []"
      by auto
    from selection_in_line[OF assms(1,2,3) c[unfolded s_def]] e len ne show ?thesis
      by (simp add: s_def)
  qed
  have endp: "errorLength s col = 1 \<and> error (getErrorContext text ln col contextLength) = []"
    if c: "col = int (length s) + 1"
  proof -
    have esl: "errorStart col = int (length s)" using c es by simp
    have "substring_from s (errorStart col) = []"
      by (simp add: substring_from_def esl clamp_index_def)
    then have w: "errorLength s col = 1" by (simp add: errorLength_def wordLength_empty)
    have "substring s (errorStart col) (errorEnd s col) = []"
      by (simp add: substring_def Let_def esl errorEnd_def w clamp_index_def)
    with w err show ?thesis by simp
  qed
  from w1 sel bnd inside endp show ?thesis unfolding s_def by blast
qed

theorem span_at_least_one_witness:
  "(1::int) \<le> 1 \<and> 1 \<le> int (length (lines_of contextExample))
   \<and> (4::int) \<le> int (length (lines_of contextExample ! nat (1 - 1))) + 1
   \<and> error (getErrorContext contextExample 1 4 20) = ascii ''cd''
   \<and> snd (snd (selection contextExample 1 4)) = ascii ''cd''
   \<and> fst (snd (selection contextExample 1 4)) = 2"
proof -
  have n: "length contextExample = 9" by (simp add: contextExample_def ascii_def)
  have h: "(1::int) \<le> 1" "1 \<le> int (length (lines_of contextExample))" "(1::int) \<le> 4"
    "(4::int) \<le> int (length (lines_of contextExample ! nat (1 - 1))) + 1"
    by (simp_all add: contextExample_lines n)
  have e: "error (getErrorContext contextExample 1 4 20) = ascii ''cd''"
  proof -
    have i: "errorStart 4 = 3" "errorEnd contextExample 4 = 5"
      by (simp_all add: errorStart_def errorEnd_def contextExample_word)
    have "substring contextExample 3 5 = ascii ''cd''"
      by (simp add: substring_def clamp_index_def contextExample_def ascii_def)
    then show ?thesis
      by (simp add: getErrorContext_in_range[OF h(1,2)] contextExample_lines i)
  qed
  from span_at_least_one[OF h, of 20] e h show ?thesis
    by (simp add: contextExample_lines n contextExample_word)
qed

text \<open>At column \<open>lineLength + 1\<close>, here on the empty line, the error text is empty.\<close>

theorem span_empty_at_line_end:
  "(1::int) \<le> int (length (lines_of [])) \<and> (1::int) \<le> int (length (lines_of [] ! nat (1 - 1))) + 1
   \<and> error (getErrorContext [] 1 1 20) = []"
  by (simp add: lines_of_def getErrorContext_def substring_def clamp_index_def)

subsection \<open>Debounce\<close>



text \<open>
  When the text of the last edit is blank, the effect returns before setting a timer and
  the engine is not called, as the specification says of a blank document.
\<close>

lemma blank_last_edit:
  "engineRuns (advance 1000 (edit 100 [] (edit 50 (ascii ''ab'') (edit 0 (ascii ''a'') (idle [])))))
   = []"
  by (simp add: edit_def Let_def advance_def fire_debounce_def run_engine_def effect_def
      cleanup_def isTextlintLoading_def debounce_delay_def lintText_delay_def idle_def
      trim_def white_space_def ws_ranges_def ascii_def)

subsection \<open>The empty text\<close>

text \<open>
  Claim C10. Linting the empty string, by a direct call of the engine, returns a result
  with no messages, \<open>errorCount = 0\<close> and \<open>warningCount = 0\<close>.
\<close>

theorem lint_empty:
  "generateMockLintResult [] = Some \<lparr>messages = [], errorCount = 0, warningCount = 0\<rparr>"
  by (simp del: match_items.simps add: eval_engine eval_rules eval_regex)

end
